theory Spec2Isabelle
  imports Main
begin

section \<open>CoreObject: lifecycle flags\<close>

text \<open>
  Modelled from the spec: the header CmCoreObject.h (the flag enumeration, the field
  declarations and the inline flag accessors) is not among the sources. The constructor
  shows \<open>mFlags\<close> to be a bit mask (\<open>mFlags | CGO_INIT_ON_CORE_THREAD\<close>); a mask of
  distinct single bits is modelled as the set of the flags that are on. The three other
  flags are the ones read and written by \<open>isInitialized\<close>/\<open>setIsInitialized\<close>,
  \<open>isScheduledToBeInitialized\<close>/\<open>setScheduledToBeInitialized\<close> and
  \<open>setScheduledToBeDeleted\<close>.
\<close>

datatype Flags =
    CGO_INITIALIZED
  | CGO_INIT_ON_CORE_THREAD
  | CGO_SCHEDULED_FOR_INIT
  | CGO_SCHEDULED_FOR_DELETE

type_synonym addr = nat
type_synonym thread_id = nat
type_synonym block_id = nat

text \<open>
  A \<open>std::shared_ptr<CoreObject>\<close> is the identity of its control block, or \<open>None\<close> when
  null; the \<open>std::weak_ptr\<close> member \<open>mThis\<close> likewise.
\<close>

record CoreObject =
  mFlags :: "Flags set"
  mInternalID :: nat
  mThis :: "block_id option"

definition isInitialized :: "CoreObject \<Rightarrow> bool" where
  "isInitialized obj = (CGO_INITIALIZED \<in> mFlags obj)"

definition isScheduledToBeInitialized :: "CoreObject \<Rightarrow> bool" where
  "isScheduledToBeInitialized obj = (CGO_SCHEDULED_FOR_INIT \<in> mFlags obj)"

definition isScheduledToBeDeleted :: "CoreObject \<Rightarrow> bool" where
  "isScheduledToBeDeleted obj = (CGO_SCHEDULED_FOR_DELETE \<in> mFlags obj)"

definition requiresInitOnCoreThread :: "CoreObject \<Rightarrow> bool" where
  "requiresInitOnCoreThread obj = (CGO_INIT_ON_CORE_THREAD \<in> mFlags obj)"

definition setFlag :: "Flags \<Rightarrow> bool \<Rightarrow> CoreObject \<Rightarrow> CoreObject" where
  "setFlag f on obj =
     obj\<lparr>mFlags := (if on then mFlags obj \<union> {f} else mFlags obj - {f})\<rparr>"

definition setIsInitialized :: "bool \<Rightarrow> CoreObject \<Rightarrow> CoreObject" where
  "setIsInitialized initialized obj = setFlag CGO_INITIALIZED initialized obj"

definition setScheduledToBeInitialized :: "bool \<Rightarrow> CoreObject \<Rightarrow> CoreObject" where
  "setScheduledToBeInitialized scheduled obj = setFlag CGO_SCHEDULED_FOR_INIT scheduled obj"

definition setScheduledToBeDeleted :: "bool \<Rightarrow> CoreObject \<Rightarrow> CoreObject" where
  "setScheduledToBeDeleted scheduled obj = setFlag CGO_SCHEDULED_FOR_DELETE scheduled obj"

section \<open>Errors\<close>

text \<open>
  Every \<open>CM_EXCEPT(InternalErrorException, ...)\<close> of the source is one value of
  \<open>except_site\<close>, named after its message. \<open>UndefinedBehaviour\<close> stands for a member
  call through a null or dangling pointer, which C++ leaves undefined. Both end the call
  for good: a result \<open>Inl\<close> carries no state.
\<close>

datatype except_site =
    DestructorButNotDestroyed
  | StillHasActiveReferences
  | AlreadyDestroyedOrNeverInitialized
  | AlreadyInitialized
  | CalledOnCoreThread
  | NotScheduledToBeInitialized
  | ScheduledToBeInitializedYetDeleted

datatype error = InternalErrorException except_site | UndefinedBehaviour

section \<open>synchronize\<close>

text \<open>
  In every function below, \<open>debug_mode\<close> is the compile-time switch \<open>CM_DEBUG_MODE\<close>,
  \<open>current_id\<close> is \<open>CM_THREAD_CURRENT_ID\<close>, and the id of the core thread is what
  \<open>CoreThread::instance().getCoreThreadId()\<close> returns.

  The uses of the shared mutex and condition variable are recorded as events.
  \<open>synchronize\<close> only reads the flags of its object: \<open>obj\<close> is the object as the caller
  finds it on entry. \<open>CM_THREAD_WAIT\<close> suspends the caller, and other threads run;
  \<open>wakeups\<close> lists the object as the caller finds it at each successive wake-up, when
  it tests the loop condition again. With no wake-up left the caller is still blocked
  in the wait: the result is \<open>Waiting\<close>.
\<close>

datatype sync_event = LockMutex | NotifyAll | WaitCondition

datatype sync_result = Returned | Waiting

fun wait_loop :: "CoreObject \<Rightarrow> CoreObject list \<Rightarrow> error + (sync_result \<times> sync_event list)" where
  "wait_loop obj [] =
     (if \<not> isInitialized obj then
        (if \<not> isScheduledToBeInitialized obj
         then Inl (InternalErrorException NotScheduledToBeInitialized)
         else Inr (Waiting, [WaitCondition]))
      else Inr (Returned, []))"
| "wait_loop obj (woken # wakeups) =
     (if \<not> isInitialized obj then
        (if \<not> isScheduledToBeInitialized obj
         then Inl (InternalErrorException NotScheduledToBeInitialized)
         else (case wait_loop woken wakeups of
                 Inl e \<Rightarrow> Inl e
               | Inr (r, evs) \<Rightarrow> Inr (r, WaitCondition # evs)))
      else Inr (Returned, []))"

definition synchronize ::
  "bool \<Rightarrow> thread_id \<Rightarrow> thread_id \<Rightarrow> CoreObject \<Rightarrow> CoreObject list
     \<Rightarrow> error + (sync_result \<times> sync_event list)" where
  "synchronize debug_mode current_id core_id obj wakeups =
     (if \<not> isInitialized obj then
        (if requiresInitOnCoreThread obj then
           (if debug_mode \<and> current_id = core_id
            then Inl (InternalErrorException CalledOnCoreThread)
            else (case wait_loop obj wakeups of
                    Inl e \<Rightarrow> Inl e
                  | Inr (r, evs) \<Rightarrow> Inr (r, LockMutex # evs)))
         else Inl (InternalErrorException NotScheduledToBeInitialized))
      else Inr (Returned, []))"

section \<open>Shared ownership, the command queue and the object manager\<close>

text \<open>
  A control block holds the raw pointer it manages, the number of \<open>shared_ptr\<close>s that
  own it, and which deleter runs when that number reaches zero: the delayed deleter
  that core objects are created with, or the default one (\<open>delete\<close>).
\<close>

datatype deleter = DeleteDelayed | DefaultDelete

record control_block =
  managed :: addr
  use_count :: nat
  deleter :: deleter

text \<open>
  \<open>std::bind(&CoreObject::initialize_internal, obj.get())\<close> and its destroy sibling: the
  method and the raw pointer it is bound to. A queued command is
  \<open>std::bind(&CoreObject::executeGpuCommand, obj, func)\<close>: it stores a copy of the shared
  pointer \<open>obj\<close> beside the bound method.
\<close>

datatype bound_method =
    Bind_initialize_internal "addr option"
  | Bind_destroy_internal "addr option"

datatype command = ExecuteGpuCommand "block_id option" bound_method

text \<open>
  The state of the process: the heap of core objects, the control blocks, the commands
  waiting for the core thread, the core thread's id, the object manager's table and
  counter, the log of mutex and condition-variable events, and, for every control block,
  the number of \<open>shared_ptr\<close>s that client code holds.
\<close>

record world =
  heap :: "addr \<rightharpoonup> CoreObject"
  blocks :: "block_id \<rightharpoonup> control_block"
  nextBlock :: block_id
  commandQueue :: "command list"
  coreThreadId :: thread_id
  mObjects :: "nat \<rightharpoonup> addr"
  mNextAvailableID :: nat
  events :: "sync_event list"
  clientRefs :: "block_id \<Rightarrow> nat"

definition empty_world :: "thread_id \<Rightarrow> world" where
  "empty_world core_id =
     \<lparr>heap = Map.empty, blocks = Map.empty, nextBlock = 0, commandQueue = [],
      coreThreadId = core_id, mObjects = Map.empty, mNextAvailableID = 0, events = [],
      clientRefs = (\<lambda>c. 0)\<rparr>"

text \<open>\<open>shared_ptr::get\<close>, \<open>weak_ptr::lock\<close>, \<open>weak_ptr::expired\<close> and the copy of a \<open>shared_ptr\<close>.\<close>

definition get_ptr :: "world \<Rightarrow> block_id option \<Rightarrow> addr option" where
  "get_ptr w p = (case p of None \<Rightarrow> None | Some c \<Rightarrow> map_option managed (blocks w c))"

definition lock :: "world \<Rightarrow> block_id option \<Rightarrow> block_id option" where
  "lock w wp =
     (case wp of
        None \<Rightarrow> None
      | Some c \<Rightarrow>
          (case blocks w c of
             None \<Rightarrow> None
           | Some cb \<Rightarrow> if use_count cb = 0 then None else Some c))"

definition expired :: "world \<Rightarrow> block_id option \<Rightarrow> bool" where
  "expired w wp = (lock w wp = None)"

definition copy_shared :: "block_id option \<Rightarrow> world \<Rightarrow> world" where
  "copy_shared p w =
     (case p of
        None \<Rightarrow> w
      | Some c \<Rightarrow>
          (case blocks w c of
             None \<Rightarrow> w
           | Some cb \<Rightarrow> w\<lparr>blocks := (blocks w)(c \<mapsto> cb\<lparr>use_count := Suc (use_count cb)\<rparr>)\<rparr>))"

definition new_block :: "addr \<Rightarrow> deleter \<Rightarrow> world \<Rightarrow> world" where
  "new_block a d w =
     w\<lparr>blocks := (blocks w)(nextBlock w \<mapsto> \<lparr>managed = a, use_count = 1, deleter = d\<rparr>),
       nextBlock := Suc (nextBlock w)\<rparr>"

text \<open>
  Modelled from the spec: CoreThread::queueCommand and CoreThreadAccessor::queueCommand
  are not among the sources. Both append the callable to the one FIFO that the core
  thread drains (spec 4.2).
\<close>

definition queueCommand :: "command \<Rightarrow> world \<Rightarrow> world" where
  "queueCommand cmd w = w\<lparr>commandQueue := commandQueue w @ [cmd]\<rparr>"

text \<open>
  Modelled from the spec: CoreObjectManager is not among the sources. registerObject
  files the object under the next free id and returns that id; unregisterObject removes
  the entry of the object's id (spec 3 and 4.1).
\<close>

definition registerObject :: "addr \<Rightarrow> world \<Rightarrow> nat \<times> world" where
  "registerObject object w =
     (mNextAvailableID w,
      w\<lparr>mObjects := (mObjects w)(mNextAvailableID w \<mapsto> object),
        mNextAvailableID := Suc (mNextAvailableID w)\<rparr>)"

definition unregisterObject :: "CoreObject \<Rightarrow> world \<Rightarrow> world" where
  "unregisterObject obj w = w\<lparr>mObjects := (mObjects w)(mInternalID obj := None)\<rparr>"

section \<open>CoreObject: construction and destruction\<close>

definition CoreObject_ctor :: "bool \<Rightarrow> addr \<Rightarrow> world \<Rightarrow> world" where
  "CoreObject_ctor initializeOnRenderThread this w =
     (let obj0 = \<lparr>mFlags = {}, mInternalID = 0, mThis = None\<rparr>;
          (newId, w1) = registerObject this w;
          obj1 = obj0\<lparr>mInternalID := newId\<rparr>;
          obj2 = obj1\<lparr>mFlags := (if initializeOnRenderThread
                                  then mFlags obj1 \<union> {CGO_INIT_ON_CORE_THREAD}
                                  else mFlags obj1)\<rparr>
      in w1\<lparr>heap := (heap w1)(this \<mapsto> obj2)\<rparr>)"

text \<open>
  The destructor: on success the object is unregistered; it is still in the heap until
  the caller frees the memory.
\<close>

definition CoreObject_dtor :: "bool \<Rightarrow> addr \<Rightarrow> world \<Rightarrow> error + world" where
  "CoreObject_dtor debug_mode this w =
     (case heap w this of
        None \<Rightarrow> Inl UndefinedBehaviour
      | Some obj \<Rightarrow>
          if isInitialized obj
          then Inl (InternalErrorException DestructorButNotDestroyed)
          else if debug_mode \<and> \<not> expired w (mThis obj)
          then Inl (InternalErrorException StillHasActiveReferences)
          else Inr (unregisterObject obj w))"

text \<open>\<open>delete obj\<close> (and \<open>cm_delete\<close>): the destructor, then the memory is given back.\<close>

definition delete_object :: "bool \<Rightarrow> addr \<Rightarrow> world \<Rightarrow> error + world" where
  "delete_object debug_mode obj w =
     (case CoreObject_dtor debug_mode obj w of
        Inl e \<Rightarrow> Inl e
      | Inr w1 \<Rightarrow> Inr (w1\<lparr>heap := (heap w1)(obj := None)\<rparr>))"

definition setThisPtr :: "block_id option \<Rightarrow> addr \<Rightarrow> world \<Rightarrow> error + world" where
  "setThisPtr ptrThis this w =
     (case heap w this of
        None \<Rightarrow> Inl UndefinedBehaviour
      | Some obj \<Rightarrow> Inr (w\<lparr>heap := (heap w)(this \<mapsto> obj\<lparr>mThis := ptrThis\<rparr>)\<rparr>))"

section \<open>CoreObject: initialize and destroy\<close>

definition destroy_internal :: "bool \<Rightarrow> addr \<Rightarrow> world \<Rightarrow> error + world" where
  "destroy_internal debug_mode this w =
     (case heap w this of
        None \<Rightarrow> Inl UndefinedBehaviour
      | Some obj \<Rightarrow>
          if debug_mode \<and> \<not> isInitialized obj
          then Inl (InternalErrorException AlreadyDestroyedOrNeverInitialized)
          else Inr (w\<lparr>heap := (heap w)(this \<mapsto> setIsInitialized False obj)\<rparr>))"

definition initialize_internal :: "addr \<Rightarrow> world \<Rightarrow> error + world" where
  "initialize_internal this w =
     (case heap w this of
        None \<Rightarrow> Inl UndefinedBehaviour
      | Some obj \<Rightarrow>
          if requiresInitOnCoreThread obj
          then Inr (w\<lparr>heap := (heap w)(this \<mapsto>
                         setScheduledToBeInitialized False (setIsInitialized True obj)),
                      events := events w @ [LockMutex, NotifyAll]\<rparr>)
          else Inr (w\<lparr>heap := (heap w)(this \<mapsto> setIsInitialized True obj)\<rparr>))"

definition queueInitializeGpuCommand :: "block_id option \<Rightarrow> world \<Rightarrow> world" where
  "queueInitializeGpuCommand obj w =
     queueCommand (ExecuteGpuCommand obj (Bind_initialize_internal (get_ptr w obj)))
       (copy_shared obj w)"

definition queueDestroyGpuCommand :: "block_id option \<Rightarrow> world \<Rightarrow> world" where
  "queueDestroyGpuCommand obj w =
     queueCommand (ExecuteGpuCommand obj (Bind_destroy_internal (get_ptr w obj)))
       (copy_shared obj w)"

definition destroy :: "bool \<Rightarrow> thread_id \<Rightarrow> addr \<Rightarrow> world \<Rightarrow> error + world" where
  "destroy debug_mode current_id this w =
     (case heap w this of
        None \<Rightarrow> Inl UndefinedBehaviour
      | Some obj \<Rightarrow>
          if requiresInitOnCoreThread obj then
            (let w1 = w\<lparr>heap := (heap w)(this \<mapsto> setScheduledToBeDeleted True obj)\<rparr>
             in if current_id = coreThreadId w1
                then (case get_ptr w1 (lock w1 (mThis obj)) of
                        None \<Rightarrow> Inl UndefinedBehaviour
                      | Some p \<Rightarrow> destroy_internal debug_mode p w1)
                else Inr (queueDestroyGpuCommand (lock w1 (mThis obj)) w1))
          else destroy_internal debug_mode this w)"

definition initialize :: "bool \<Rightarrow> thread_id \<Rightarrow> addr \<Rightarrow> world \<Rightarrow> error + world" where
  "initialize debug_mode current_id this w =
     (case heap w this of
        None \<Rightarrow> Inl UndefinedBehaviour
      | Some obj \<Rightarrow>
          if debug_mode \<and> (isInitialized obj \<or> isScheduledToBeInitialized obj)
          then Inl (InternalErrorException AlreadyInitialized)
          else if requiresInitOnCoreThread obj then
            (let w1 = w\<lparr>heap := (heap w)(this \<mapsto> setScheduledToBeInitialized True obj)\<rparr>
             in if current_id = coreThreadId w1
                then (case get_ptr w1 (lock w1 (mThis obj)) of
                        None \<Rightarrow> Inl UndefinedBehaviour
                      | Some p \<Rightarrow> initialize_internal p w1)
                else Inr (queueInitializeGpuCommand (lock w1 (mThis obj)) w1))
          else initialize_internal this w)"

definition executeGpuCommand :: "bool \<Rightarrow> block_id option \<Rightarrow> bound_method \<Rightarrow> world \<Rightarrow> error + world" where
  "executeGpuCommand debug_mode obj func w =
     (case func of
        Bind_initialize_internal p \<Rightarrow>
          (case p of None \<Rightarrow> Inl UndefinedBehaviour | Some this \<Rightarrow> initialize_internal this w)
      | Bind_destroy_internal p \<Rightarrow>
          (case p of None \<Rightarrow> Inl UndefinedBehaviour | Some this \<Rightarrow> destroy_internal debug_mode this w))"

section \<open>Release of shared pointers and the delayed deleter\<close>

definition deleteDelayedInternal :: "bool \<Rightarrow> addr \<Rightarrow> world \<Rightarrow> error + world" where
  "deleteDelayedInternal debug_mode obj w =
     (case heap w obj of
        None \<Rightarrow> Inl UndefinedBehaviour
      | Some ob \<Rightarrow>
          if debug_mode \<and> isScheduledToBeInitialized ob
          then Inl (InternalErrorException ScheduledToBeInitializedYetDeleted)
          else Inr w)"

text \<open>
  The release of one \<open>shared_ptr\<close> whose control block has the default deleter: the
  count goes down by one, and at zero the object is deleted.
\<close>

definition release_default :: "bool \<Rightarrow> block_id \<Rightarrow> world \<Rightarrow> error + world" where
  "release_default debug_mode c w =
     (case blocks w c of
        None \<Rightarrow> Inl UndefinedBehaviour
      | Some cb \<Rightarrow>
          if use_count cb = 0 then Inl UndefinedBehaviour
          else (let w1 = w\<lparr>blocks := (blocks w)(c \<mapsto> cb\<lparr>use_count := use_count cb - 1\<rparr>)\<rparr>
                in if use_count cb - 1 = 0 then delete_object debug_mode (managed cb) w1
                   else Inr w1))"

text \<open>
  Modelled from the spec: the deleter that core objects are created with is a template
  of the absent header. It first calls \<open>_deleteDelayedInternal\<close> (in the sources), and
  then does what the comment in that function and spec 4.3 describe: an object that is
  not initialized is deleted right away; otherwise a new shared pointer to the object is
  made, \<open>mThis\<close> is set to it, \<open>destroy()\<close> is called, and the new shared pointer goes out
  of scope.
\<close>

definition deleteDelayed :: "bool \<Rightarrow> thread_id \<Rightarrow> addr \<Rightarrow> world \<Rightarrow> error + world" where
  "deleteDelayed debug_mode current_id obj w =
     (case deleteDelayedInternal debug_mode obj w of
        Inl e \<Rightarrow> Inl e
      | Inr w1 \<Rightarrow>
          (case heap w1 obj of
             None \<Rightarrow> Inl UndefinedBehaviour
           | Some ob \<Rightarrow>
               if isInitialized ob then
                 (let thisPtr = nextBlock w1;
                      w2 = new_block obj DefaultDelete w1
                  in case setThisPtr (Some thisPtr) obj w2 of
                       Inl e \<Rightarrow> Inl e
                     | Inr w3 \<Rightarrow>
                         (case destroy debug_mode current_id obj w3 of
                            Inl e \<Rightarrow> Inl e
                          | Inr w4 \<Rightarrow> release_default debug_mode thisPtr w4))
               else delete_object debug_mode obj w1))"

text \<open>The release of one \<open>shared_ptr\<close> by the thread \<open>current_id\<close>.\<close>

definition release_shared :: "bool \<Rightarrow> thread_id \<Rightarrow> block_id option \<Rightarrow> world \<Rightarrow> error + world" where
  "release_shared debug_mode current_id p w =
     (case p of
        None \<Rightarrow> Inr w
      | Some c \<Rightarrow>
          (case blocks w c of
             None \<Rightarrow> Inl UndefinedBehaviour
           | Some cb \<Rightarrow>
               if use_count cb = 0 then Inl UndefinedBehaviour
               else (let w1 = w\<lparr>blocks := (blocks w)(c \<mapsto> cb\<lparr>use_count := use_count cb - 1\<rparr>)\<rparr>
                     in if use_count cb - 1 = 0 then
                          (case deleter cb of
                             DeleteDelayed \<Rightarrow> deleteDelayed debug_mode current_id (managed cb) w1
                           | DefaultDelete \<Rightarrow> delete_object debug_mode (managed cb) w1)
                        else Inr w1)))"

section \<open>The core thread and the client code\<close>

text \<open>
  Modelled from the spec: the core thread's playback loop is not among the sources. One
  step takes the oldest command off the queue, calls it, and destroys it, which
  releases the shared pointer stored in it (spec 3, Queued Command, and 4.2).
\<close>

definition run_next :: "bool \<Rightarrow> world \<Rightarrow> error + world" where
  "run_next debug_mode w =
     (case commandQueue w of
        [] \<Rightarrow> Inr w
      | ExecuteGpuCommand obj func # rest \<Rightarrow>
          (case executeGpuCommand debug_mode obj func (w\<lparr>commandQueue := rest\<rparr>) of
             Inl e \<Rightarrow> Inl e
           | Inr w1 \<Rightarrow> release_shared debug_mode (coreThreadId w1) obj w1))"

text \<open>
  Modelled from the spec: the factory code that wraps a new object is not among the
  sources. It constructs the object at a free address, wraps it in a shared pointer with
  the delayed deleter, which the caller keeps, and binds the self-reference with
  \<open>_setThisPtr\<close> (spec 6, bindSelfReference).
\<close>

definition create :: "bool \<Rightarrow> addr \<Rightarrow> world \<Rightarrow> error + world" where
  "create initializeOnRenderThread a w =
     (if heap w a \<noteq> None then Inr w
      else (let w1 = CoreObject_ctor initializeOnRenderThread a w;
                c = nextBlock w1;
                w2 = new_block a DeleteDelayed w1;
                w3 = w2\<lparr>clientRefs := (clientRefs w2)(c := 1)\<rparr>
            in setThisPtr (Some c) a w3))"

text \<open>
  What client code does with a shared pointer it holds: call initialize() or destroy()
  through it, copy it, release it. A step naming a control block of which the client
  holds no shared pointer is no step at all and leaves the world as it is. A run is a
  sequence of steps taken by any threads, the core thread among them: the threads
  interleave between calls, and each call and each played-back command is one step.
\<close>

datatype operation =
    Create bool addr
  | Initialize thread_id block_id
  | Destroy thread_id block_id
  | Copy block_id
  | Release thread_id block_id
  | RunNext

definition apply_op :: "bool \<Rightarrow> operation \<Rightarrow> world \<Rightarrow> error + world" where
  "apply_op debug_mode op w =
     (case op of
        Create b a \<Rightarrow> create b a w
      | Initialize t c \<Rightarrow>
          if clientRefs w c = 0 then Inr w
          else (case get_ptr w (Some c) of
                  None \<Rightarrow> Inl UndefinedBehaviour
                | Some this \<Rightarrow> initialize debug_mode t this w)
      | Destroy t c \<Rightarrow>
          if clientRefs w c = 0 then Inr w
          else (case get_ptr w (Some c) of
                  None \<Rightarrow> Inl UndefinedBehaviour
                | Some this \<Rightarrow> destroy debug_mode t this w)
      | Copy c \<Rightarrow>
          if clientRefs w c = 0 then Inr w
          else Inr (copy_shared (Some c) (w\<lparr>clientRefs := (clientRefs w)(c := Suc (clientRefs w c))\<rparr>))
      | Release t c \<Rightarrow>
          if clientRefs w c = 0 then Inr w
          else release_shared debug_mode t (Some c)
                 (w\<lparr>clientRefs := (clientRefs w)(c := clientRefs w c - 1)\<rparr>)
      | RunNext \<Rightarrow> run_next debug_mode w)"

fun run :: "bool \<Rightarrow> operation list \<Rightarrow> world \<Rightarrow> error + world" where
  "run debug_mode [] w = Inr w"
| "run debug_mode (op # ops) w =
     (case apply_op debug_mode op w of
        Inl e \<Rightarrow> Inl e
      | Inr w1 \<Rightarrow> run debug_mode ops w1)"

section \<open>Consistency of the reference counts\<close>

fun command_ptr :: "command \<Rightarrow> block_id option" where
  "command_ptr (ExecuteGpuCommand p func) = p"

fun command_target :: "command \<Rightarrow> addr option" where
  "command_target (ExecuteGpuCommand p (Bind_initialize_internal a)) = a"
| "command_target (ExecuteGpuCommand p (Bind_destroy_internal a)) = a"

definition queue_count :: "world \<Rightarrow> block_id \<Rightarrow> nat" where
  "queue_count w c = length (filter (\<lambda>cmd. command_ptr cmd = Some c) (commandQueue w))"

definition count_of :: "world \<Rightarrow> block_id \<Rightarrow> nat" where
  "count_of w c = (case blocks w c of None \<Rightarrow> 0 | Some cb \<Rightarrow> use_count cb)"

definition self_of :: "world \<Rightarrow> addr \<Rightarrow> block_id option option" where
  "self_of w a = map_option mThis (heap w a)"

text \<open>
  The invariant of the protocol, in five parts. \<open>running\<close> is the shared pointer held by
  the code that is executing at this moment (the command being played back, or the
  pointer a client is about to release), if any.
  \<^item> The count of every control block is the number of its owners: the client's shared
    pointers, the queued commands, and the running code.
  \<^item> Control blocks from \<open>nextBlock\<close> on are unused.
  \<^item> An owned control block manages a live object whose \<open>mThis\<close> refers back to it.
  \<^item> The \<open>mThis\<close> of a live object refers to an owned control block that manages it.
  \<^item> Every queued command holds a non-null shared pointer and is bound to the object
    that pointer manages.
\<close>

definition counts_ok :: "block_id option \<Rightarrow> world \<Rightarrow> bool" where
  "counts_ok running w \<longleftrightarrow>
     (\<forall>c. count_of w c
          = clientRefs w c + queue_count w c + (if running = Some c then 1 else 0))"

definition fresh_ok :: "world \<Rightarrow> bool" where
  "fresh_ok w \<longleftrightarrow> (\<forall>c. nextBlock w \<le> c \<longrightarrow> blocks w c = None)"

definition blocks_ok :: "world \<Rightarrow> bool" where
  "blocks_ok w \<longleftrightarrow>
     (\<forall>c cb. blocks w c = Some cb \<longrightarrow> 0 < use_count cb \<longrightarrow>
        self_of w (managed cb) = Some (Some c))"

definition objects_ok :: "world \<Rightarrow> bool" where
  "objects_ok w \<longleftrightarrow>
     (\<forall>a s. self_of w a = Some s \<longrightarrow>
        (\<exists>c cb. s = Some c \<and> blocks w c = Some cb \<and> managed cb = a \<and> 0 < use_count cb))"

definition queue_ok :: "world \<Rightarrow> bool" where
  "queue_ok w \<longleftrightarrow>
     (\<forall>cmd \<in> set (commandQueue w).
        \<exists>c cb. blocks w c = Some cb \<and> command_ptr cmd = Some c
             \<and> command_target cmd = Some (managed cb))"

definition consistent :: "block_id option \<Rightarrow> world \<Rightarrow> bool" where
  "consistent running w \<longleftrightarrow>
     counts_ok running w \<and> fresh_ok w \<and> blocks_ok w \<and> objects_ok w \<and> queue_ok w"

text \<open>
  The state in the middle of a release that has brought the count of \<open>c\<close> to zero: the
  object \<open>a\<close> that \<open>c\<close> manages is still in the heap, nothing owns it, and the world
  without \<open>a\<close> is consistent.
\<close>

definition orphan :: "block_id \<Rightarrow> addr \<Rightarrow> world \<Rightarrow> bool" where
  "orphan c a w \<longleftrightarrow>
     consistent None (w\<lparr>heap := (heap w)(a := None)\<rparr>)
   \<and> self_of w a = Some (Some c)
   \<and> (\<exists>cb. blocks w c = Some cb \<and> managed cb = a \<and> use_count cb = 0)"

section \<open>How the flags of an object move\<close>

text \<open>
  \<open>flags_wind_down\<close> relates the flags of an object before and after code that only
  destroys: nothing but \<open>CGO_INITIALIZED\<close> is taken away, and nothing but
  \<open>CGO_SCHEDULED_FOR_DELETE\<close> is added, the latter only on an object that initializes on
  the core thread. \<open>winding_down\<close> lifts it to worlds: no object appears, every object
  still there has wound down, and no event was logged.
\<close>

definition flags_wind_down :: "CoreObject \<Rightarrow> CoreObject \<Rightarrow> bool" where
  "flags_wind_down obj obj' \<longleftrightarrow>
     mFlags obj - {CGO_INITIALIZED} \<subseteq> mFlags obj'
   \<and> mFlags obj' \<subseteq> mFlags obj \<union> (if CGO_INIT_ON_CORE_THREAD \<in> mFlags obj
                                   then {CGO_SCHEDULED_FOR_DELETE} else {})"

definition winding_down :: "world \<Rightarrow> world \<Rightarrow> bool" where
  "winding_down w w' \<longleftrightarrow>
     events w' = events w
   \<and> (\<forall>a obj'. heap w' a = Some obj' \<longrightarrow>
         heap w a \<noteq> None \<and> (\<forall>obj. heap w a = Some obj \<longrightarrow> flags_wind_down obj obj'))"

text \<open>
  What holds of the flags of every object between two operations of a debug build: an
  object scheduled to be initialized initializes on the core thread and is not
  initialized, and an object scheduled to be deleted initializes on the core thread.
\<close>

definition lifecycle_flags_ok :: "CoreObject \<Rightarrow> bool" where
  "lifecycle_flags_ok obj \<longleftrightarrow>
     (isScheduledToBeInitialized obj \<longrightarrow> requiresInitOnCoreThread obj \<and> \<not> isInitialized obj)
   \<and> (isScheduledToBeDeleted obj \<longrightarrow> requiresInitOnCoreThread obj)"

definition all_flags_ok :: "world \<Rightarrow> bool" where
  "all_flags_ok w \<longleftrightarrow> (\<forall>a obj. heap w a = Some obj \<longrightarrow> lifecycle_flags_ok obj)"

text \<open>
  What holds of the flags of an object across any code at all: the flag
  \<open>CGO_INIT_ON_CORE_THREAD\<close> does not change, and \<open>CGO_SCHEDULED_FOR_DELETE\<close> is not
  taken away. \<open>advancing\<close> lifts it to worlds in which no object appears.
\<close>

definition flags_advance :: "CoreObject \<Rightarrow> CoreObject \<Rightarrow> bool" where
  "flags_advance obj obj' \<longleftrightarrow>
     requiresInitOnCoreThread obj' = requiresInitOnCoreThread obj
   \<and> (isScheduledToBeDeleted obj \<longrightarrow> isScheduledToBeDeleted obj')"

definition advancing :: "world \<Rightarrow> world \<Rightarrow> bool" where
  "advancing w w' \<longleftrightarrow>
     (\<forall>a obj'. heap w' a = Some obj' \<longrightarrow>
         heap w a \<noteq> None \<and> (\<forall>obj. heap w a = Some obj \<longrightarrow> flags_advance obj obj'))"


section \<open>Facts about the flag accessors\<close>

lemma isInitialized_setIsInitialized [simp]:
  "isInitialized (setIsInitialized b obj) = b"
  by (simp add: isInitialized_def setIsInitialized_def setFlag_def)

lemma isScheduledToBeInitialized_set [simp]:
  "isScheduledToBeInitialized (setScheduledToBeInitialized b obj) = b"
  by (simp add: isScheduledToBeInitialized_def setScheduledToBeInitialized_def setFlag_def)

lemma isScheduledToBeDeleted_set [simp]:
  "isScheduledToBeDeleted (setScheduledToBeDeleted b obj) = b"
  by (simp add: isScheduledToBeDeleted_def setScheduledToBeDeleted_def setFlag_def)

section \<open>synchronize\<close>

lemma wait_loop_initialized:
  "isInitialized obj \<Longrightarrow> wait_loop obj wakeups = Inr (Returned, [])"
  by (cases wakeups) simp_all

lemma wait_loop_not_scheduled:
  "\<not> isInitialized obj \<Longrightarrow> \<not> isScheduledToBeInitialized obj \<Longrightarrow>
   wait_loop obj wakeups = Inl (InternalErrorException NotScheduledToBeInitialized)"
  by (cases wakeups) simp_all

lemma wait_loop_through_pending:
  assumes "\<forall>p \<in> set (obj # pending). \<not> isInitialized p \<and> isScheduledToBeInitialized p"
  shows "wait_loop obj (pending @ woken # rest) =
           (case wait_loop woken rest of
              Inl e \<Rightarrow> Inl e
            | Inr (r, evs) \<Rightarrow> Inr (r, replicate (Suc (length pending)) WaitCondition @ evs))"
  using assms
proof (induction pending arbitrary: obj)
  case Nil
  then show ?case by (simp split: sum.splits)
next
  case (Cons p pending)
  have here: "\<not> isInitialized obj" "isScheduledToBeInitialized obj"
    using Cons.prems by simp_all
  have rest: "\<forall>q \<in> set (p # pending). \<not> isInitialized q \<and> isScheduledToBeInitialized q"
    using Cons.prems by simp
  show ?case
    using here Cons.IH [OF rest] by (simp split: sum.splits prod.splits)
qed

text \<open>
  C6. synchronize() on a resource for which initialize() was never called (neither
  initialized nor scheduled to be initialized) raises InternalErrorException, on every
  thread, in both build modes and whatever wake-ups would follow: it neither returns
  nor waits.
\<close>

theorem synchronize_never_scheduled_fails:
  assumes "\<not> isInitialized obj" and "\<not> isScheduledToBeInitialized obj"
  shows "\<exists>site. synchronize debug_mode current_id core_id obj wakeups
                  = Inl (InternalErrorException site)"
  using assms by (simp add: synchronize_def wait_loop_not_scheduled)

theorem synchronize_never_scheduled_fails_witness:
  "\<not> isInitialized \<lparr>mFlags = {CGO_INIT_ON_CORE_THREAD}, mInternalID = 0, mThis = None\<rparr>
   \<and> \<not> isScheduledToBeInitialized \<lparr>mFlags = {CGO_INIT_ON_CORE_THREAD}, mInternalID = 0, mThis = None\<rparr>
   \<and> (\<exists>site. synchronize False 1 0 \<lparr>mFlags = {CGO_INIT_ON_CORE_THREAD}, mInternalID = 0, mThis = None\<rparr> []
               = Inl (InternalErrorException site))"
  using synchronize_never_scheduled_fails
    [of "\<lparr>mFlags = {CGO_INIT_ON_CORE_THREAD}, mInternalID = 0, mThis = None\<rparr>" False 1 0 "[]"]
  by (simp add: isInitialized_def isScheduledToBeInitialized_def)

text \<open>
  C7, as stated, fails: on the core thread of a debug build, synchronize() on an
  initialized resource returns normally; and in a release build the core-thread check
  is compiled out, so a scheduled resource makes the core thread wait.
\<close>

theorem synchronize_core_thread_counterexample:
  "synchronize True 0 0
     \<lparr>mFlags = {CGO_INITIALIZED, CGO_INIT_ON_CORE_THREAD}, mInternalID = 0, mThis = None\<rparr> []
     = Inr (Returned, [])
   \<and> synchronize False 0 0
     \<lparr>mFlags = {CGO_INIT_ON_CORE_THREAD, CGO_SCHEDULED_FOR_INIT}, mInternalID = 0, mThis = None\<rparr> []
     = Inr (Waiting, [LockMutex, WaitCondition])"
  by (simp add: synchronize_def isInitialized_def isScheduledToBeInitialized_def
      requiresInitOnCoreThread_def)

text \<open>
  C7, amended. In a debug build, synchronize() called from the core thread on a resource
  that is not initialized raises InternalErrorException (the deadlock error when the
  resource initializes on the core thread, the not-scheduled error otherwise).
\<close>

theorem synchronize_core_thread_fails:
  assumes "\<not> isInitialized obj"
  shows "synchronize True core_id core_id obj wakeups =
           Inl (InternalErrorException
                  (if requiresInitOnCoreThread obj then CalledOnCoreThread
                   else NotScheduledToBeInitialized))"
  using assms by (simp add: synchronize_def)

theorem synchronize_core_thread_fails_witness:
  "\<not> isInitialized \<lparr>mFlags = {CGO_INIT_ON_CORE_THREAD, CGO_SCHEDULED_FOR_INIT}, mInternalID = 0, mThis = None\<rparr>
   \<and> synchronize True 0 0
       \<lparr>mFlags = {CGO_INIT_ON_CORE_THREAD, CGO_SCHEDULED_FOR_INIT}, mInternalID = 0, mThis = None\<rparr> []
     = Inl (InternalErrorException CalledOnCoreThread)"
  using synchronize_core_thread_fails
    [of "\<lparr>mFlags = {CGO_INIT_ON_CORE_THREAD, CGO_SCHEDULED_FOR_INIT}, mInternalID = 0, mThis = None\<rparr>" 0 "[]"]
  by (simp add: isInitialized_def requiresInitOnCoreThread_def)

text \<open>
  C9. synchronize() on an initialized resource returns at once: no error, no wait, and
  no use of the shared mutex or condition variable (the event list is empty), on every
  thread, the core thread included, and in both build modes.
\<close>

theorem synchronize_initialized_returns:
  assumes "isInitialized obj"
  shows "synchronize debug_mode current_id core_id obj wakeups = Inr (Returned, [])"
  using assms by (simp add: synchronize_def)

theorem synchronize_initialized_returns_witness:
  "isInitialized \<lparr>mFlags = {CGO_INITIALIZED, CGO_INIT_ON_CORE_THREAD}, mInternalID = 3, mThis = None\<rparr>
   \<and> synchronize True 5 5
       \<lparr>mFlags = {CGO_INITIALIZED, CGO_INIT_ON_CORE_THREAD}, mInternalID = 3, mThis = None\<rparr> []
     = Inr (Returned, [])"
  using synchronize_initialized_returns
    [of "\<lparr>mFlags = {CGO_INITIALIZED, CGO_INIT_ON_CORE_THREAD}, mInternalID = 3, mThis = None\<rparr>" True 5 5 "[]"]
  by (simp add: isInitialized_def)

text \<open>
  C10. A caller that got past the entry checks of synchronize() and has been woken any
  number of times while the resource was still scheduled and not initialized looks at
  both flags again on the next wake-up: finding the resource neither initialized nor
  scheduled it raises InternalErrorException, whatever wake-ups would follow; finding
  it initialized it returns.
\<close>

theorem synchronize_rechecks_on_wakeup:
  assumes "requiresInitOnCoreThread obj"
    and "\<not> (debug_mode \<and> current_id = core_id)"
    and "\<forall>p \<in> set (obj # pending). \<not> isInitialized p \<and> isScheduledToBeInitialized p"
  shows "(\<not> isInitialized woken \<and> \<not> isScheduledToBeInitialized woken \<longrightarrow>
            synchronize debug_mode current_id core_id obj (pending @ woken # rest)
              = Inl (InternalErrorException NotScheduledToBeInitialized))
       \<and> (isInitialized woken \<longrightarrow>
            synchronize debug_mode current_id core_id obj (pending @ woken # rest)
              = Inr (Returned, LockMutex # replicate (Suc (length pending)) WaitCondition))"
proof -
  have first: "\<not> isInitialized obj"
    using assms(3) by simp
  have loop: "wait_loop obj (pending @ woken # rest) =
           (case wait_loop woken rest of
              Inl e \<Rightarrow> Inl e
            | Inr (r, evs) \<Rightarrow> Inr (r, replicate (Suc (length pending)) WaitCondition @ evs))"
    by (rule wait_loop_through_pending [OF assms(3)])
  show ?thesis
    using first assms(1,2) loop
    by (auto simp add: synchronize_def wait_loop_not_scheduled wait_loop_initialized)
qed

theorem synchronize_rechecks_on_wakeup_witness:
  "synchronize True 1 0
     \<lparr>mFlags = {CGO_INIT_ON_CORE_THREAD, CGO_SCHEDULED_FOR_INIT}, mInternalID = 0, mThis = None\<rparr>
     [\<lparr>mFlags = {CGO_INIT_ON_CORE_THREAD, CGO_SCHEDULED_FOR_INIT}, mInternalID = 0, mThis = None\<rparr>,
      \<lparr>mFlags = {CGO_INIT_ON_CORE_THREAD, CGO_SCHEDULED_FOR_DELETE}, mInternalID = 0, mThis = None\<rparr>]
     = Inl (InternalErrorException NotScheduledToBeInitialized)"
  using synchronize_rechecks_on_wakeup
    [of "\<lparr>mFlags = {CGO_INIT_ON_CORE_THREAD, CGO_SCHEDULED_FOR_INIT}, mInternalID = 0, mThis = None\<rparr>"
        True 1 0
        "[\<lparr>mFlags = {CGO_INIT_ON_CORE_THREAD, CGO_SCHEDULED_FOR_INIT}, mInternalID = 0, mThis = None\<rparr>]"
        "\<lparr>mFlags = {CGO_INIT_ON_CORE_THREAD, CGO_SCHEDULED_FOR_DELETE}, mInternalID = 0, mThis = None\<rparr>"
        "[]"]
  by (simp add: isInitialized_def isScheduledToBeInitialized_def requiresInitOnCoreThread_def)

section \<open>The reference counts stay consistent\<close>

lemmas inv_defs = consistent_def counts_ok_def fresh_ok_def blocks_ok_def objects_ok_def queue_ok_def

lemma consistent_empty: "consistent None (empty_world core_id)"
  by (simp add: inv_defs empty_world_def count_of_def queue_count_def self_of_def)

lemma consistent_cong:
  assumes "blocks w' = blocks w" "nextBlock w' = nextBlock w" "self_of w' = self_of w"
    "commandQueue w' = commandQueue w" "clientRefs w' = clientRefs w"
  shows "consistent r w' = consistent r w"
  using assms by (simp add: inv_defs count_of_def queue_count_def)

lemma self_of_flag_update:
  assumes "heap w a = Some obj" "mThis obj' = mThis obj"
  shows "self_of (w\<lparr>heap := (heap w)(a \<mapsto> obj')\<rparr>) = self_of w"
  using assms by (auto simp add: self_of_def fun_eq_iff)

lemma consistent_flag_update:
  assumes "heap w a = Some obj" "mThis obj' = mThis obj"
  shows "consistent r (w\<lparr>heap := (heap w)(a \<mapsto> obj')\<rparr>) = consistent r w"
  by (rule consistent_cong) (simp_all add: self_of_flag_update [OF assms])

lemma consistent_events [simp]: "consistent r (w\<lparr>events := e\<rparr>) = consistent r w"
  by (rule consistent_cong) (simp_all add: self_of_def fun_eq_iff)

lemma consistent_mObjects [simp]: "consistent r (w\<lparr>mObjects := e\<rparr>) = consistent r w"
  by (rule consistent_cong) (simp_all add: self_of_def fun_eq_iff)

lemma consistent_mNextAvailableID [simp]: "consistent r (w\<lparr>mNextAvailableID := e\<rparr>) = consistent r w"
  by (rule consistent_cong) (simp_all add: self_of_def fun_eq_iff)

text \<open>Queuing a command gives its control block one more owner.\<close>

lemma enqueue_consistent:
  assumes inv: "consistent r w" and blk: "blocks w c = Some cb" and pos: "0 < use_count cb" and tgt: "command_target cmd = Some (managed cb)"
    and ptr: "command_ptr cmd = Some c"
  shows "consistent r (queueCommand cmd (copy_shared (Some c) w))"
proof -
  let ?w = "queueCommand cmd (copy_shared (Some c) w)"
  have bl: "blocks ?w = (blocks w)(c \<mapsto> cb\<lparr>use_count := Suc (use_count cb)\<rparr>)"
    and q: "commandQueue ?w = commandQueue w @ [cmd]"
    and nb: "nextBlock ?w = nextBlock w" and cr: "clientRefs ?w = clientRefs w"
    and so: "self_of ?w = self_of w"
    using blk by (simp_all add: queueCommand_def copy_shared_def self_of_def fun_eq_iff)
  have c1: "counts_ok r ?w"
    using inv blk ptr unfolding consistent_def counts_ok_def count_of_def queue_count_def bl q cr
    by (auto split: option.splits)
  have c2: "fresh_ok ?w"
    using inv blk unfolding consistent_def fresh_ok_def bl nb by auto
  have c3: "blocks_ok ?w"
    using inv blk pos unfolding consistent_def blocks_ok_def bl so
    by (auto split: if_splits)
  have c4: "objects_ok ?w"
    using inv blk unfolding consistent_def objects_ok_def bl so
    by (fastforce split: if_splits)
  have c5: "queue_ok ?w"
    using inv blk tgt ptr unfolding consistent_def queue_ok_def bl q
    by (fastforce split: if_splits)
  show ?thesis unfolding consistent_def using c1 c2 c3 c4 c5 by simp
qed


lemma mThis_setFlag [simp]: "mThis (setFlag f b obj) = mThis obj"
  by (simp add: setFlag_def)

lemma mThis_setters [simp]:
  "mThis (setIsInitialized b obj) = mThis obj"
  "mThis (setScheduledToBeInitialized b obj) = mThis obj"
  "mThis (setScheduledToBeDeleted b obj) = mThis obj"
  by (simp_all add: setIsInitialized_def setScheduledToBeInitialized_def setScheduledToBeDeleted_def)

lemma consistent_self:
  assumes "consistent r w" "heap w a = Some obj"
  obtains c cb where "mThis obj = Some c" "blocks w c = Some cb" "managed cb = a" "0 < use_count cb"
proof -
  have "self_of w a = Some (mThis obj)" using assms(2) by (simp add: self_of_def)
  moreover have "objects_ok w" using assms(1) by (simp add: consistent_def)
  ultimately show thesis using that unfolding objects_ok_def by blast
qed

lemma consistent_live:
  assumes "consistent r w" "blocks w c = Some cb" "0 < use_count cb"
  obtains obj where "heap w (managed cb) = Some obj" "mThis obj = Some c"
proof -
  have "blocks_ok w" using assms(1) by (simp add: consistent_def)
  then have "self_of w (managed cb) = Some (Some c)"
    using assms(2,3) unfolding blocks_ok_def by blast
  then show thesis using that by (auto simp add: self_of_def)
qed

lemma consistent_owned:
  assumes "consistent r w" "0 < clientRefs w c \<or> r = Some c \<or> 0 < queue_count w c"
  obtains cb where "blocks w c = Some cb" "0 < use_count cb"
proof -
  have "counts_ok r w" using assms(1) by (simp add: consistent_def)
  then have "count_of w c = clientRefs w c + queue_count w c + (if r = Some c then 1 else 0)"
    unfolding counts_ok_def by blast
  then have "0 < count_of w c" using assms(2) by auto
  then show thesis using that by (auto simp add: count_of_def split: option.splits)
qed

lemma initialize_eq:
  assumes obj: "heap w a = Some obj" and self: "mThis obj = Some c"
    and blk: "blocks w c = Some cb" and man: "managed cb = a" and pos: "0 < use_count cb"
  shows "initialize d t a w =
    (if d \<and> (isInitialized obj \<or> isScheduledToBeInitialized obj)
     then Inl (InternalErrorException AlreadyInitialized)
     else if requiresInitOnCoreThread obj then
       (if t = coreThreadId w
        then Inr (w\<lparr>heap := (heap w)(a \<mapsto> setScheduledToBeInitialized False
                      (setIsInitialized True (setScheduledToBeInitialized True obj))),
                    events := events w @ [LockMutex, NotifyAll]\<rparr>)
        else Inr (queueCommand (ExecuteGpuCommand (Some c) (Bind_initialize_internal (Some a)))
                   (copy_shared (Some c)
                      (w\<lparr>heap := (heap w)(a \<mapsto> setScheduledToBeInitialized True obj)\<rparr>))))
     else Inr (w\<lparr>heap := (heap w)(a \<mapsto> setIsInitialized True obj)\<rparr>))"
  using assms
  by (simp add: initialize_def initialize_internal_def Let_def lock_def get_ptr_def
      queueInitializeGpuCommand_def requiresInitOnCoreThread_def
      setScheduledToBeInitialized_def setFlag_def)

lemma destroy_eq:
  assumes obj: "heap w a = Some obj" and self: "mThis obj = Some c"
    and blk: "blocks w c = Some cb" and man: "managed cb = a" and pos: "0 < use_count cb"
  shows "destroy d t a w =
    (if requiresInitOnCoreThread obj then
       (if t = coreThreadId w
        then (if d \<and> \<not> isInitialized obj
              then Inl (InternalErrorException AlreadyDestroyedOrNeverInitialized)
              else Inr (w\<lparr>heap := (heap w)(a \<mapsto> setIsInitialized False
                      (setScheduledToBeDeleted True obj))\<rparr>))
        else Inr (queueCommand (ExecuteGpuCommand (Some c) (Bind_destroy_internal (Some a)))
                   (copy_shared (Some c)
                      (w\<lparr>heap := (heap w)(a \<mapsto> setScheduledToBeDeleted True obj)\<rparr>))))
     else (if d \<and> \<not> isInitialized obj
              then Inl (InternalErrorException AlreadyDestroyedOrNeverInitialized)
              else Inr (w\<lparr>heap := (heap w)(a \<mapsto> setIsInitialized False obj)\<rparr>)))"
  using assms
  by (simp add: destroy_def destroy_internal_def Let_def lock_def get_ptr_def
      queueDestroyGpuCommand_def isInitialized_def
      setScheduledToBeDeleted_def setFlag_def)


lemma enqueue_after_flag_update:
  assumes inv: "consistent r w" and obj: "heap w a = Some obj" and same: "mThis obj' = mThis obj"
    and blk: "blocks w c = Some cb" and pos: "0 < use_count cb"
    and tgt: "command_target cmd = Some (managed cb)" and ptr: "command_ptr cmd = Some c"
  shows "consistent r (queueCommand cmd (copy_shared (Some c) (w\<lparr>heap := (heap w)(a \<mapsto> obj')\<rparr>)))"
proof -
  have "consistent r (w\<lparr>heap := (heap w)(a \<mapsto> obj')\<rparr>)"
    using inv by (simp add: consistent_flag_update [OF obj same])
  moreover have "blocks (w\<lparr>heap := (heap w)(a \<mapsto> obj')\<rparr>) c = Some cb"
    using blk by simp
  ultimately show ?thesis
    using pos tgt ptr by (rule enqueue_consistent)
qed

lemma initialize_consistent:
  assumes inv: "consistent r w" and obj: "heap w a = Some obj"
    and res: "initialize d t a w = Inr w'"
  shows "consistent r w'"
proof -
  obtain c cb where self: "mThis obj = Some c" and blk: "blocks w c = Some cb"
    and man: "managed cb = a" and pos: "0 < use_count cb"
    using inv obj by (rule consistent_self)
  have q: "consistent r (queueCommand (ExecuteGpuCommand (Some c) (Bind_initialize_internal (Some a)))
                   (copy_shared (Some c)
                      (w\<lparr>heap := (heap w)(a \<mapsto> setScheduledToBeInitialized True obj)\<rparr>)))"
    by (rule enqueue_after_flag_update [OF inv obj _ blk pos]) (simp_all add: man)
  show ?thesis
    using res inv q unfolding initialize_eq [OF obj self blk man pos]
    by (auto simp add: consistent_flag_update [OF obj] split: if_splits)
qed

lemma initialize_defined:
  assumes inv: "consistent r w" and obj: "heap w a = Some obj"
  shows "initialize d t a w \<noteq> Inl UndefinedBehaviour"
proof -
  obtain c cb where self: "mThis obj = Some c" and blk: "blocks w c = Some cb"
    and man: "managed cb = a" and pos: "0 < use_count cb"
    using inv obj by (rule consistent_self)
  show ?thesis
    unfolding initialize_eq [OF obj self blk man pos] by simp
qed

lemma destroy_consistent:
  assumes inv: "consistent r w" and obj: "heap w a = Some obj"
    and res: "destroy d t a w = Inr w'"
  shows "consistent r w'"
proof -
  obtain c cb where self: "mThis obj = Some c" and blk: "blocks w c = Some cb"
    and man: "managed cb = a" and pos: "0 < use_count cb"
    using inv obj by (rule consistent_self)
  have q: "consistent r (queueCommand (ExecuteGpuCommand (Some c) (Bind_destroy_internal (Some a)))
                   (copy_shared (Some c)
                      (w\<lparr>heap := (heap w)(a \<mapsto> setScheduledToBeDeleted True obj)\<rparr>)))"
    by (rule enqueue_after_flag_update [OF inv obj _ blk pos]) (simp_all add: man)
  show ?thesis
    using res inv q unfolding destroy_eq [OF obj self blk man pos]
    by (auto simp add: consistent_flag_update [OF obj] split: if_splits)
qed

lemma destroy_defined:
  assumes inv: "consistent r w" and obj: "heap w a = Some obj"
  shows "destroy d t a w \<noteq> Inl UndefinedBehaviour"
proof -
  obtain c cb where self: "mThis obj = Some c" and blk: "blocks w c = Some cb"
    and man: "managed cb = a" and pos: "0 < use_count cb"
    using inv obj by (rule consistent_self)
  show ?thesis
    unfolding destroy_eq [OF obj self blk man pos] by simp
qed


lemma running_block:
  assumes "consistent (Some c) w"
  obtains cb where "blocks w c = Some cb" "0 < use_count cb"
  using assms consistent_owned [of "Some c" w c] by blast

lemma dec_positive:
  assumes inv: "consistent (Some c) w" and blk: "blocks w c = Some cb" and more: "1 < use_count cb"
  shows "consistent None (w\<lparr>blocks := (blocks w)(c \<mapsto> cb\<lparr>use_count := use_count cb - 1\<rparr>)\<rparr>)"
proof -
  let ?w = "w\<lparr>blocks := (blocks w)(c \<mapsto> cb\<lparr>use_count := use_count cb - 1\<rparr>)\<rparr>"
  have so: "self_of ?w = self_of w"
    by (simp add: self_of_def fun_eq_iff)
  have c1: "counts_ok None ?w"
    using inv blk more unfolding consistent_def counts_ok_def count_of_def queue_count_def
    by (auto split: option.splits)
  have c2: "fresh_ok ?w"
    using inv blk unfolding consistent_def fresh_ok_def by auto
  have c3: "blocks_ok ?w"
    using inv blk more unfolding consistent_def blocks_ok_def so
    by (auto split: if_splits)
  have c4: "objects_ok ?w"
    using inv blk more unfolding consistent_def objects_ok_def so
    by (fastforce split: if_splits)
  have c5: "queue_ok ?w"
    using inv blk unfolding consistent_def queue_ok_def
    by (fastforce split: if_splits)
  show ?thesis unfolding consistent_def using c1 c2 c3 c4 c5 by simp
qed

lemma dec_zero:
  assumes inv: "consistent (Some c) w" and blk: "blocks w c = Some cb" and one: "use_count cb = 1"
  shows "orphan c (managed cb) (w\<lparr>blocks := (blocks w)(c \<mapsto> cb\<lparr>use_count := use_count cb - 1\<rparr>)\<rparr>)"
proof -
  let ?a = "managed cb"
  let ?dec = "w\<lparr>blocks := (blocks w)(c \<mapsto> cb\<lparr>use_count := use_count cb - 1\<rparr>)\<rparr>"
  let ?w = "?dec\<lparr>heap := (heap ?dec)(?a := None)\<rparr>"
  have bok: "blocks_ok w" and ook: "objects_ok w"
    using inv by (simp_all add: consistent_def)
  have self: "self_of w ?a = Some (Some c)"
    using bok blk one unfolding blocks_ok_def by simp
  have so: "self_of ?w = (self_of w)(?a := None)"
    by (simp add: self_of_def fun_eq_iff)
  have c1: "counts_ok None ?w"
    using inv blk one unfolding consistent_def counts_ok_def count_of_def queue_count_def
    by (auto split: option.splits)
  have c2: "fresh_ok ?w"
    using inv blk unfolding consistent_def fresh_ok_def by auto
  have c3: "blocks_ok ?w"
    unfolding blocks_ok_def so
  proof (intro allI impI)
    fix c2 cb2
    assume b2: "blocks ?w c2 = Some cb2" and p2: "0 < use_count cb2"
    have ne: "c2 \<noteq> c" using b2 p2 one by (auto split: if_splits)
    then have b2w: "blocks w c2 = Some cb2" using b2 by simp
    then have s2: "self_of w (managed cb2) = Some (Some c2)"
      using bok p2 unfolding blocks_ok_def by blast
    then have "managed cb2 \<noteq> ?a" using self ne by auto
    then show "((self_of w)(?a := None)) (managed cb2) = Some (Some c2)"
      using s2 by simp
  qed
  have c4: "objects_ok ?w"
    unfolding objects_ok_def so
  proof (intro allI impI)
    fix a2 s2
    assume live: "((self_of w)(?a := None)) a2 = Some s2"
    then have ne: "a2 \<noteq> ?a" and s2w: "self_of w a2 = Some s2"
      by (auto split: if_splits)
    then obtain c2 cb2 where f: "s2 = Some c2" "blocks w c2 = Some cb2" "managed cb2 = a2" "0 < use_count cb2"
      using ook unfolding objects_ok_def by blast
    then have "c2 \<noteq> c" using ne blk by auto
    then show "\<exists>c cb. s2 = Some c \<and> blocks ?w c = Some cb \<and> managed cb = a2 \<and> 0 < use_count cb"
      using f by simp
  qed
  have c5: "queue_ok ?w"
    using inv blk unfolding consistent_def queue_ok_def
    by (fastforce split: if_splits)
  have "consistent None ?w" unfolding consistent_def using c1 c2 c3 c4 c5 by simp
  moreover have "self_of ?dec ?a = Some (Some c)"
    using self by (simp add: self_of_def)
  moreover have "\<exists>cb'. blocks ?dec c = Some cb' \<and> managed cb' = ?a \<and> use_count cb' = 0"
    using one by simp
  ultimately show ?thesis unfolding orphan_def by blast
qed


lemma orphan_object:
  assumes "orphan c a w"
  obtains obj cb where "heap w a = Some obj" "mThis obj = Some c"
    "blocks w c = Some cb" "managed cb = a" "use_count cb = 0"
  using assms unfolding orphan_def self_of_def by auto

lemma delete_orphan:
  assumes orp: "orphan c a w"
  shows "delete_object d a w \<noteq> Inl UndefinedBehaviour"
    and "delete_object d a w = Inr w' \<Longrightarrow> consistent None w'"
proof -
  obtain obj cb where obj: "heap w a = Some obj" and self: "mThis obj = Some c"
    and blk: "blocks w c = Some cb" and zero: "use_count cb = 0"
    using orp by (rule orphan_object)
  have ex: "expired w (mThis obj)"
    using self blk zero by (simp add: expired_def lock_def)
  have eq: "delete_object d a w =
      (if isInitialized obj then Inl (InternalErrorException DestructorButNotDestroyed)
       else Inr (w\<lparr>mObjects := (mObjects w)(mInternalID obj := None), heap := (heap w)(a := None)\<rparr>))"
    using obj ex by (simp add: delete_object_def CoreObject_dtor_def unregisterObject_def)
  show "delete_object d a w \<noteq> Inl UndefinedBehaviour"
    unfolding eq by simp
  have "consistent None (w\<lparr>heap := (heap w)(a := None)\<rparr>)"
    using orp by (simp add: orphan_def)
  moreover have "consistent None (w\<lparr>mObjects := (mObjects w)(mInternalID obj := None), heap := (heap w)(a := None)\<rparr>)
      = consistent None (w\<lparr>heap := (heap w)(a := None)\<rparr>)"
    by (rule consistent_cong) (simp_all add: self_of_def fun_eq_iff)
  ultimately show "delete_object d a w = Inr w' \<Longrightarrow> consistent None w'"
    unfolding eq by (auto split: if_splits)
qed

lemma adopt:
  assumes without: "consistent None (w\<lparr>heap := (heap w)(a := None)\<rparr>)"
    and self: "mThis obj = Some (nextBlock w)"
  shows "consistent (Some (nextBlock w))
           (w\<lparr>blocks := (blocks w)(nextBlock w \<mapsto> \<lparr>managed = a, use_count = 1, deleter = dl\<rparr>),
              nextBlock := Suc (nextBlock w),
              heap := (heap w)(a \<mapsto> obj)\<rparr>)"
proof -
  let ?n = "nextBlock w"
  let ?base = "w\<lparr>heap := (heap w)(a := None)\<rparr>"
  let ?w = "w\<lparr>blocks := (blocks w)(?n \<mapsto> \<lparr>managed = a, use_count = 1, deleter = dl\<rparr>),
              nextBlock := Suc ?n,
              heap := (heap w)(a \<mapsto> obj)\<rparr>"
  have inv0: "consistent None ?base" using without .
  then have cnt0: "counts_ok None ?base" and fr0: "fresh_ok ?base" and bok0: "blocks_ok ?base"
    and ook0: "objects_ok ?base" and qok0: "queue_ok ?base"
    by (simp_all add: consistent_def)
  have fresh: "blocks w ?n = None"
    using fr0 unfolding fresh_ok_def by simp
  have so: "self_of ?w = (self_of ?base)(a \<mapsto> Some ?n)"
    using self by (simp add: self_of_def fun_eq_iff)
  have so0: "self_of ?base a = None"
    by (simp add: self_of_def)
  have "count_of ?base ?n = clientRefs ?base ?n + queue_count ?base ?n + 0"
    using cnt0 unfolding counts_ok_def by simp
  then have unowned: "clientRefs w ?n = 0" "queue_count w ?n = 0"
    using fresh by (simp_all add: count_of_def queue_count_def)
  have c1: "counts_ok (Some ?n) ?w"
    unfolding counts_ok_def
  proof
    fix c2
    have old: "count_of ?base c2 = clientRefs ?base c2 + queue_count ?base c2 + 0"
      using cnt0 unfolding counts_ok_def by simp
    show "count_of ?w c2 = clientRefs ?w c2 + queue_count ?w c2 + (if Some ?n = Some c2 then 1 else 0)"
    proof (cases "c2 = ?n")
      case True
      then show ?thesis using unowned by (simp add: count_of_def queue_count_def)
    next
      case False
      then show ?thesis using old by (simp add: count_of_def queue_count_def)
    qed
  qed
  have c2: "fresh_ok ?w"
    using fr0 unfolding fresh_ok_def by auto
  have c3: "blocks_ok ?w"
    unfolding blocks_ok_def so
  proof (intro allI impI)
    fix c2 cb2
    assume b2: "blocks ?w c2 = Some cb2" and p2: "0 < use_count cb2"
    show "((self_of ?base)(a \<mapsto> Some ?n)) (managed cb2) = Some (Some c2)"
    proof (cases "c2 = ?n")
      case True
      then show ?thesis using b2 by auto
    next
      case False
      then have "blocks ?base c2 = Some cb2" using b2 by simp
      then have s: "self_of ?base (managed cb2) = Some (Some c2)"
        using bok0 p2 unfolding blocks_ok_def by blast
      then have "managed cb2 \<noteq> a" using so0 by auto
      then show ?thesis using s by simp
    qed
  qed
  have c4: "objects_ok ?w"
    unfolding objects_ok_def so
  proof (intro allI impI)
    fix a2 s2
    assume live: "((self_of ?base)(a \<mapsto> Some ?n)) a2 = Some s2"
    show "\<exists>c cb. s2 = Some c \<and> blocks ?w c = Some cb \<and> managed cb = a2 \<and> 0 < use_count cb"
    proof (cases "a2 = a")
      case True
      then have "s2 = Some ?n" using live by simp
      moreover have "blocks ?w ?n = Some \<lparr>managed = a, use_count = 1, deleter = dl\<rparr>"
        by simp
      ultimately show ?thesis using True by (intro exI [of _ ?n] exI [of _ "\<lparr>managed = a, use_count = 1, deleter = dl\<rparr>"]) simp
    next
      case False
      then have "self_of ?base a2 = Some s2" using live by simp
      then obtain c2 cb2 where f: "s2 = Some c2" "blocks ?base c2 = Some cb2" "managed cb2 = a2" "0 < use_count cb2"
        using ook0 unfolding objects_ok_def by blast
      then have "c2 \<noteq> ?n" using fresh by auto
      then show ?thesis using f by simp
    qed
  qed
  have c5: "queue_ok ?w"
    unfolding queue_ok_def
  proof
    fix cmd assume "cmd \<in> set (commandQueue ?w)"
    then have "cmd \<in> set (commandQueue ?base)" by simp
    then obtain c2 cb2 where f: "blocks ?base c2 = Some cb2" "command_ptr cmd = Some c2"
        "command_target cmd = Some (managed cb2)"
      using qok0 unfolding queue_ok_def by blast
    then have "c2 \<noteq> ?n" using fresh by auto
    then show "\<exists>c cb. blocks ?w c = Some cb \<and> command_ptr cmd = Some c \<and> command_target cmd = Some (managed cb)"
      using f by simp
  qed
  show ?thesis unfolding consistent_def using c1 c2 c3 c4 c5 by simp
qed

lemma resurrect:
  assumes orp: "orphan c a w"
  shows "consistent (Some (nextBlock w))
           (w\<lparr>blocks := (blocks w)(nextBlock w \<mapsto> \<lparr>managed = a, use_count = 1, deleter = DefaultDelete\<rparr>),
              nextBlock := Suc (nextBlock w),
              heap := (heap w)(a \<mapsto> obj\<lparr>mThis := Some (nextBlock w)\<rparr>)\<rparr>)"
  using orp by (intro adopt) (simp_all add: orphan_def)

lemma release_default_consistent:
  assumes inv: "consistent (Some c) w"
  shows "release_default d c w \<noteq> Inl UndefinedBehaviour"
    and "release_default d c w = Inr w' \<Longrightarrow> consistent None w'"
proof -
  obtain cb where blk: "blocks w c = Some cb" and pos: "0 < use_count cb"
    using inv by (rule running_block)
  let ?dec = "w\<lparr>blocks := (blocks w)(c \<mapsto> cb\<lparr>use_count := use_count cb - 1\<rparr>)\<rparr>"
  have eq: "release_default d c w =
      (if use_count cb - 1 = 0 then delete_object d (managed cb) ?dec else Inr ?dec)"
    using blk pos by (simp add: release_default_def Let_def)
  show "release_default d c w \<noteq> Inl UndefinedBehaviour"
  proof (cases "use_count cb = 1")
    case True
    have "orphan c (managed cb) ?dec" using inv blk True by (rule dec_zero)
    then show ?thesis unfolding eq using True delete_orphan(1) by simp
  next
    case False
    then show ?thesis unfolding eq using pos by simp
  qed
  show "release_default d c w = Inr w' \<Longrightarrow> consistent None w'"
  proof (cases "use_count cb = 1")
    case True
    assume res: "release_default d c w = Inr w'"
    have "orphan c (managed cb) ?dec" using inv blk True by (rule dec_zero)
    then show ?thesis using res True delete_orphan(2) unfolding eq by simp
  next
    case False
    assume res: "release_default d c w = Inr w'"
    have "1 < use_count cb" using False pos by simp
    then have "consistent None ?dec" using inv blk dec_positive by blast
    then show ?thesis using res False pos unfolding eq by auto
  qed
qed


lemma deleteDelayed_consistent:
  assumes orp: "orphan c a w"
  shows "deleteDelayed d t a w \<noteq> Inl UndefinedBehaviour"
    and "deleteDelayed d t a w = Inr w' \<Longrightarrow> consistent None w'"
proof -
  obtain obj cb where obj: "heap w a = Some obj" and self: "mThis obj = Some c"
    and blk: "blocks w c = Some cb" and zero: "use_count cb = 0"
    using orp by (rule orphan_object)
  let ?n = "nextBlock w"
  let ?res = "w\<lparr>blocks := (blocks w)(?n \<mapsto> \<lparr>managed = a, use_count = 1, deleter = DefaultDelete\<rparr>),
              nextBlock := Suc ?n,
              heap := (heap w)(a \<mapsto> obj\<lparr>mThis := Some ?n\<rparr>)\<rparr>"
  have eq: "deleteDelayed d t a w =
      (if d \<and> isScheduledToBeInitialized obj
       then Inl (InternalErrorException ScheduledToBeInitializedYetDeleted)
       else if isInitialized obj
       then (case destroy d t a ?res of
               Inl e \<Rightarrow> Inl e
             | Inr w4 \<Rightarrow> release_default d ?n w4)
       else delete_object d a w)"
    using obj
    by (simp add: deleteDelayed_def deleteDelayedInternal_def new_block_def setThisPtr_def Let_def)
  have inv3: "consistent (Some ?n) ?res"
    using orp by (rule resurrect)
  have live3: "heap ?res a = Some (obj\<lparr>mThis := Some ?n\<rparr>)"
    by simp
  show "deleteDelayed d t a w \<noteq> Inl UndefinedBehaviour"
    unfolding eq
    using delete_orphan(1) [OF orp] destroy_defined [OF inv3 live3]
      destroy_consistent [OF inv3 live3] release_default_consistent(1)
    by (auto split: sum.splits)
  show "deleteDelayed d t a w = Inr w' \<Longrightarrow> consistent None w'"
  proof -
    assume res: "deleteDelayed d t a w = Inr w'"
    then consider (del) "delete_object d a w = Inr w'"
      | (dest) w4 where "destroy d t a ?res = Inr w4" "release_default d ?n w4 = Inr w'"
      unfolding eq by (auto split: if_splits sum.splits)
    then show ?thesis
    proof cases
      case del
      then show ?thesis by (rule delete_orphan(2) [OF orp])
    next
      case dest
      have "consistent (Some ?n) w4"
        using inv3 live3 dest(1) by (rule destroy_consistent)
      then show ?thesis using dest(2) by (rule release_default_consistent(2))
    qed
  qed
qed

lemma release_shared_consistent:
  assumes inv: "consistent (Some c) w"
  shows "release_shared d t (Some c) w \<noteq> Inl UndefinedBehaviour"
    and "release_shared d t (Some c) w = Inr w' \<Longrightarrow> consistent None w'"
proof -
  obtain cb where blk: "blocks w c = Some cb" and pos: "0 < use_count cb"
    using inv by (rule running_block)
  let ?dec = "w\<lparr>blocks := (blocks w)(c \<mapsto> cb\<lparr>use_count := use_count cb - 1\<rparr>)\<rparr>"
  have eq: "release_shared d t (Some c) w =
      (if use_count cb - 1 = 0
       then (case deleter cb of
               DeleteDelayed \<Rightarrow> deleteDelayed d t (managed cb) ?dec
             | DefaultDelete \<Rightarrow> delete_object d (managed cb) ?dec)
       else Inr ?dec)"
    using blk pos by (simp add: release_shared_def Let_def split: deleter.splits)
  show "release_shared d t (Some c) w \<noteq> Inl UndefinedBehaviour"
  proof (cases "use_count cb = 1")
    case True
    have "orphan c (managed cb) ?dec" using inv blk True by (rule dec_zero)
    then show ?thesis
      unfolding eq using True delete_orphan(1) deleteDelayed_consistent(1)
      by (simp split: deleter.splits)
  next
    case False
    then show ?thesis unfolding eq using pos by simp
  qed
  show "release_shared d t (Some c) w = Inr w' \<Longrightarrow> consistent None w'"
  proof (cases "use_count cb = 1")
    case True
    assume res: "release_shared d t (Some c) w = Inr w'"
    have "orphan c (managed cb) ?dec" using inv blk True by (rule dec_zero)
    then show ?thesis
      using res True delete_orphan(2) deleteDelayed_consistent(2) unfolding eq
      by (simp split: deleter.splits)
  next
    case False
    assume res: "release_shared d t (Some c) w = Inr w'"
    have "1 < use_count cb" using False pos by simp
    then have "consistent None ?dec" using inv blk dec_positive by blast
    then show ?thesis using res False pos unfolding eq by auto
  qed
qed


lemma take_ownership:
  assumes inv: "consistent None w" and held: "0 < clientRefs w c"
  shows "consistent (Some c) (w\<lparr>clientRefs := (clientRefs w)(c := clientRefs w c - 1)\<rparr>)"
proof -
  let ?w = "w\<lparr>clientRefs := (clientRefs w)(c := clientRefs w c - 1)\<rparr>"
  have c1: "counts_ok (Some c) ?w"
    using inv held unfolding consistent_def counts_ok_def count_of_def queue_count_def
    by auto
  have "counts_ok (Some c) ?w \<and> fresh_ok ?w \<and> blocks_ok ?w \<and> objects_ok ?w \<and> queue_ok ?w"
    using inv c1
    by (simp add: consistent_def fresh_ok_def blocks_ok_def objects_ok_def queue_ok_def self_of_def)
  then show ?thesis by (simp add: consistent_def)
qed

lemma hand_over:
  assumes inv: "consistent (Some c) w"
  shows "consistent None (w\<lparr>clientRefs := (clientRefs w)(c := Suc (clientRefs w c))\<rparr>)"
proof -
  let ?w = "w\<lparr>clientRefs := (clientRefs w)(c := Suc (clientRefs w c))\<rparr>"
  have c1: "counts_ok None ?w"
    using inv unfolding consistent_def counts_ok_def count_of_def queue_count_def
    by auto
  have "counts_ok None ?w \<and> fresh_ok ?w \<and> blocks_ok ?w \<and> objects_ok ?w \<and> queue_ok ?w"
    using inv c1
    by (simp add: consistent_def fresh_ok_def blocks_ok_def objects_ok_def queue_ok_def self_of_def)
  then show ?thesis by (simp add: consistent_def)
qed

lemma pop_consistent:
  assumes inv: "consistent None w" and q: "commandQueue w = ExecuteGpuCommand p func # rest"
  obtains c cb where "p = Some c" "blocks w c = Some cb"
    "command_target (ExecuteGpuCommand p func) = Some (managed cb)"
    "consistent (Some c) (w\<lparr>commandQueue := rest\<rparr>)"
proof -
  have qok: "queue_ok w" using inv by (simp add: consistent_def)
  then obtain c cb where f: "blocks w c = Some cb" "p = Some c"
      "command_target (ExecuteGpuCommand p func) = Some (managed cb)"
    unfolding queue_ok_def q by auto
  let ?w = "w\<lparr>commandQueue := rest\<rparr>"
  have c1: "counts_ok (Some c) ?w"
    using inv f(2) unfolding consistent_def counts_ok_def count_of_def queue_count_def q
    by auto
  have c5: "queue_ok ?w"
    using qok unfolding queue_ok_def q by simp
  have "counts_ok (Some c) ?w \<and> fresh_ok ?w \<and> blocks_ok ?w \<and> objects_ok ?w \<and> queue_ok ?w"
    using inv c1 c5
    by (simp add: consistent_def fresh_ok_def blocks_ok_def objects_ok_def self_of_def)
  then have "consistent (Some c) ?w" by (simp add: consistent_def)
  then show thesis using f that by blast
qed

lemma initialize_internal_consistent:
  assumes inv: "consistent r w" and obj: "heap w a = Some obj"
  shows "initialize_internal a w \<noteq> Inl UndefinedBehaviour"
    and "initialize_internal a w = Inr w' \<Longrightarrow> consistent r w'"
  using inv obj
  by (auto simp add: initialize_internal_def consistent_flag_update [OF obj] split: if_splits)

lemma destroy_internal_consistent:
  assumes inv: "consistent r w" and obj: "heap w a = Some obj"
  shows "destroy_internal d a w \<noteq> Inl UndefinedBehaviour"
    and "destroy_internal d a w = Inr w' \<Longrightarrow> consistent r w'"
  using inv obj
  by (auto simp add: destroy_internal_def consistent_flag_update [OF obj] split: if_splits)

lemma run_next_consistent:
  assumes inv: "consistent None w"
  shows "run_next d w \<noteq> Inl UndefinedBehaviour"
    and "run_next d w = Inr w' \<Longrightarrow> consistent None w'"
proof -
  show "run_next d w \<noteq> Inl UndefinedBehaviour"
  proof (cases "commandQueue w")
    case Nil
    then show ?thesis by (simp add: run_next_def)
  next
    case (Cons cmd rest)
    obtain p func where cmd: "cmd = ExecuteGpuCommand p func" by (cases cmd)
    have q: "commandQueue w = ExecuteGpuCommand p func # rest" using Cons cmd by simp
    obtain c cb where f: "p = Some c" "blocks w c = Some cb"
      "command_target (ExecuteGpuCommand p func) = Some (managed cb)"
      "consistent (Some c) (w\<lparr>commandQueue := rest\<rparr>)"
      using inv q by (rule pop_consistent)
    let ?w = "w\<lparr>commandQueue := rest\<rparr>"
    obtain cb' where "blocks ?w c = Some cb'" "0 < use_count cb'"
      using f(4) by (rule running_block)
    then have pos: "0 < use_count cb" using f(2) by simp
    obtain obj where obj: "heap ?w (managed cb) = Some obj"
      using consistent_live [OF f(4), of c cb] f(2) pos by auto
    have ex: "executeGpuCommand d p func ?w \<noteq> Inl UndefinedBehaviour"
      using f(3) initialize_internal_consistent(1) [OF f(4) obj]
        destroy_internal_consistent(1) [OF f(4) obj]
      by (cases func) (auto simp add: executeGpuCommand_def)
    have ex2: "\<And>w1. executeGpuCommand d p func ?w = Inr w1 \<Longrightarrow> consistent (Some c) w1"
      using f(3) initialize_internal_consistent(2) [OF f(4) obj]
        destroy_internal_consistent(2) [OF f(4) obj]
      by (cases func) (auto simp add: executeGpuCommand_def)
    show ?thesis
      using q ex ex2 release_shared_consistent(1) f(1)
      by (auto simp add: run_next_def split: sum.splits)
  qed
  show "run_next d w = Inr w' \<Longrightarrow> consistent None w'"
  proof (cases "commandQueue w")
    case Nil
    assume "run_next d w = Inr w'"
    then show ?thesis using Nil inv by (simp add: run_next_def)
  next
    case (Cons cmd rest)
    assume res: "run_next d w = Inr w'"
    obtain p func where cmd: "cmd = ExecuteGpuCommand p func" by (cases cmd)
    have q: "commandQueue w = ExecuteGpuCommand p func # rest" using Cons cmd by simp
    obtain c cb where f: "p = Some c" "blocks w c = Some cb"
      "command_target (ExecuteGpuCommand p func) = Some (managed cb)"
      "consistent (Some c) (w\<lparr>commandQueue := rest\<rparr>)"
      using inv q by (rule pop_consistent)
    let ?w = "w\<lparr>commandQueue := rest\<rparr>"
    obtain cb' where "blocks ?w c = Some cb'" "0 < use_count cb'"
      using f(4) by (rule running_block)
    then have pos: "0 < use_count cb" using f(2) by simp
    obtain obj where obj: "heap ?w (managed cb) = Some obj"
      using consistent_live [OF f(4), of c cb] f(2) pos by auto
    have ex2: "\<And>w1. executeGpuCommand d p func ?w = Inr w1 \<Longrightarrow> consistent (Some c) w1"
      using f(3) initialize_internal_consistent(2) [OF f(4) obj]
        destroy_internal_consistent(2) [OF f(4) obj]
      by (cases func) (auto simp add: executeGpuCommand_def)
    obtain w1 where w1: "executeGpuCommand d p func ?w = Inr w1"
      and rel: "release_shared d (coreThreadId w1) (Some c) w1 = Inr w'"
      using res q f(1) by (auto simp add: run_next_def split: sum.splits)
    show ?thesis
      using ex2 [OF w1] rel by (rule release_shared_consistent(2))
  qed
qed


lemma unused_block_unowned:
  assumes inv: "consistent r w" and none: "blocks w c = None"
  shows "clientRefs w c = 0"
proof -
  have "counts_ok r w" using inv by (simp add: consistent_def)
  then have "count_of w c = clientRefs w c + queue_count w c + (if r = Some c then 1 else 0)"
    unfolding counts_ok_def by blast
  then show ?thesis using none by (simp add: count_of_def)
qed

lemma create_consistent:
  assumes inv: "consistent None w"
  shows "create b a w \<noteq> Inl UndefinedBehaviour"
    and "create b a w = Inr w' \<Longrightarrow> consistent None w'"
proof -
  let ?n = "nextBlock w"
  let ?obj = "\<lparr>mFlags = (if b then {} \<union> {CGO_INIT_ON_CORE_THREAD} else {}),
              mInternalID = mNextAvailableID w, mThis = Some ?n\<rparr>"
  let ?adopted = "w\<lparr>blocks := (blocks w)(?n \<mapsto> \<lparr>managed = a, use_count = 1, deleter = DeleteDelayed\<rparr>),
              nextBlock := Suc ?n, heap := (heap w)(a \<mapsto> ?obj)\<rparr>"
  let ?new = "?adopted\<lparr>clientRefs := (clientRefs ?adopted)(?n := Suc (clientRefs ?adopted ?n))\<rparr>"
  have eq: "create b a w =
      (if heap w a \<noteq> None then Inr w
       else Inr (w\<lparr>mObjects := (mObjects w)(mNextAvailableID w \<mapsto> a),
                  mNextAvailableID := Suc (mNextAvailableID w),
                  blocks := (blocks w)(?n \<mapsto> \<lparr>managed = a, use_count = 1, deleter = DeleteDelayed\<rparr>),
                  nextBlock := Suc ?n,
                  clientRefs := (clientRefs w)(?n := 1),
                  heap := (heap w)(a \<mapsto> ?obj)\<rparr>))"
    by (simp add: create_def CoreObject_ctor_def registerObject_def new_block_def
        setThisPtr_def Let_def)
  show "create b a w \<noteq> Inl UndefinedBehaviour"
    unfolding eq by simp
  show "create b a w = Inr w' \<Longrightarrow> consistent None w'"
  proof (cases "heap w a")
    case (Some obj)
    assume "create b a w = Inr w'"
    then show ?thesis using Some inv unfolding eq by simp
  next
    case None
    assume res: "create b a w = Inr w'"
    have "fresh_ok w" using inv by (simp add: consistent_def)
    then have "blocks w ?n = None" unfolding fresh_ok_def by simp
    then have unowned: "clientRefs w ?n = 0"
      using inv by (rule unused_block_unowned [rotated])
    have "w\<lparr>heap := (heap w)(a := None)\<rparr> = w"
      using None by (simp add: fun_upd_idem)
    then have "consistent None (w\<lparr>heap := (heap w)(a := None)\<rparr>)"
      using inv by simp
    then have "consistent (Some ?n) ?adopted"
      by (rule adopt) simp
    then have "consistent None ?new"
      by (rule hand_over)
    moreover have "consistent None w' = consistent None ?new"
      using res None unowned unfolding eq
      by (intro consistent_cong) (auto simp add: self_of_def fun_eq_iff)
    ultimately show ?thesis by simp
  qed
qed

lemma copy_consistent:
  assumes inv: "consistent None w" and held: "0 < clientRefs w c"
  shows "consistent None (copy_shared (Some c) (w\<lparr>clientRefs := (clientRefs w)(c := Suc (clientRefs w c))\<rparr>))"
proof -
  obtain cb where blk: "blocks w c = Some cb" and pos: "0 < use_count cb"
    using consistent_owned [OF inv, of c] held by blast
  let ?w = "w\<lparr>clientRefs := (clientRefs w)(c := Suc (clientRefs w c)),
              blocks := (blocks w)(c \<mapsto> cb\<lparr>use_count := Suc (use_count cb)\<rparr>)\<rparr>"
  have eq: "copy_shared (Some c) (w\<lparr>clientRefs := (clientRefs w)(c := Suc (clientRefs w c))\<rparr>) = ?w"
    using blk by (simp add: copy_shared_def)
  have so: "self_of ?w = self_of w"
    by (simp add: self_of_def fun_eq_iff)
  have c1: "counts_ok None ?w"
    using inv blk unfolding consistent_def counts_ok_def count_of_def queue_count_def
    by (auto split: option.splits)
  have c2: "fresh_ok ?w"
    using inv blk unfolding consistent_def fresh_ok_def by auto
  have c3: "blocks_ok ?w"
    using inv blk pos unfolding consistent_def blocks_ok_def so
    by (auto split: if_splits)
  have c4: "objects_ok ?w"
    using inv blk unfolding consistent_def objects_ok_def so
    by (fastforce split: if_splits)
  have c5: "queue_ok ?w"
    using inv blk unfolding consistent_def queue_ok_def
    by (fastforce split: if_splits)
  show ?thesis unfolding eq consistent_def using c1 c2 c3 c4 c5 by simp
qed

lemma client_object:
  assumes inv: "consistent None w" and held: "0 < clientRefs w c"
  obtains a obj where "get_ptr w (Some c) = Some a" "heap w a = Some obj"
proof -
  obtain cb where blk: "blocks w c = Some cb" and pos: "0 < use_count cb"
    using consistent_owned [OF inv, of c] held by blast
  obtain obj where "heap w (managed cb) = Some obj"
    using inv blk pos by (rule consistent_live)
  then show thesis using that blk by (simp add: get_ptr_def)
qed

lemma apply_op_consistent:
  assumes inv: "consistent None w"
  shows "apply_op d op w \<noteq> Inl UndefinedBehaviour"
    and "apply_op d op w = Inr w' \<Longrightarrow> consistent None w'"
proof -
  show "apply_op d op w \<noteq> Inl UndefinedBehaviour"
  proof (cases op)
    case (Create b a)
    then show ?thesis using create_consistent(1) [OF inv] by (simp add: apply_op_def)
  next
    case (Initialize t c)
    show ?thesis
    proof (cases "clientRefs w c = 0")
      case True
      then show ?thesis using Initialize by (simp add: apply_op_def)
    next
      case False
      then obtain a obj where "get_ptr w (Some c) = Some a" "heap w a = Some obj"
        using client_object [OF inv, of c] by auto
      then show ?thesis
        using Initialize False initialize_defined [OF inv] by (simp add: apply_op_def)
    qed
  next
    case (Destroy t c)
    show ?thesis
    proof (cases "clientRefs w c = 0")
      case True
      then show ?thesis using Destroy by (simp add: apply_op_def)
    next
      case False
      then obtain a obj where "get_ptr w (Some c) = Some a" "heap w a = Some obj"
        using client_object [OF inv, of c] by auto
      then show ?thesis
        using Destroy False destroy_defined [OF inv] by (simp add: apply_op_def)
    qed
  next
    case (Copy c)
    then show ?thesis by (simp add: apply_op_def)
  next
    case (Release t c)
    show ?thesis
    proof (cases "clientRefs w c = 0")
      case True
      then show ?thesis using Release by (simp add: apply_op_def)
    next
      case False
      then have "consistent (Some c) (w\<lparr>clientRefs := (clientRefs w)(c := clientRefs w c - 1)\<rparr>)"
        using inv by (intro take_ownership) simp_all
      then show ?thesis
        using Release False release_shared_consistent(1) by (simp add: apply_op_def)
    qed
  next
    case RunNext
    then show ?thesis using run_next_consistent(1) [OF inv] by (simp add: apply_op_def)
  qed
  show "apply_op d op w = Inr w' \<Longrightarrow> consistent None w'"
  proof (cases op)
    case (Create b a)
    assume "apply_op d op w = Inr w'"
    then show ?thesis using Create create_consistent(2) [OF inv] by (simp add: apply_op_def)
  next
    case (Initialize t c)
    assume res: "apply_op d op w = Inr w'"
    show ?thesis
    proof (cases "clientRefs w c = 0")
      case True
      then show ?thesis using Initialize res inv by (simp add: apply_op_def)
    next
      case False
      then obtain a obj where "get_ptr w (Some c) = Some a" "heap w a = Some obj"
        using client_object [OF inv, of c] by auto
      then show ?thesis
        using Initialize False res initialize_consistent [OF inv] by (simp add: apply_op_def)
    qed
  next
    case (Destroy t c)
    assume res: "apply_op d op w = Inr w'"
    show ?thesis
    proof (cases "clientRefs w c = 0")
      case True
      then show ?thesis using Destroy res inv by (simp add: apply_op_def)
    next
      case False
      then obtain a obj where "get_ptr w (Some c) = Some a" "heap w a = Some obj"
        using client_object [OF inv, of c] by auto
      then show ?thesis
        using Destroy False res destroy_consistent [OF inv] by (simp add: apply_op_def)
    qed
  next
    case (Copy c)
    assume res: "apply_op d op w = Inr w'"
    then show ?thesis
      using Copy inv copy_consistent [OF inv, of c]
      by (auto simp add: apply_op_def split: if_splits)
  next
    case (Release t c)
    assume res: "apply_op d op w = Inr w'"
    show ?thesis
    proof (cases "clientRefs w c = 0")
      case True
      then show ?thesis using Release res inv by (simp add: apply_op_def)
    next
      case False
      then have "consistent (Some c) (w\<lparr>clientRefs := (clientRefs w)(c := clientRefs w c - 1)\<rparr>)"
        using inv by (intro take_ownership) simp_all
      then show ?thesis
        using Release False res release_shared_consistent(2) by (simp add: apply_op_def)
    qed
  next
    case RunNext
    assume "apply_op d op w = Inr w'"
    then show ?thesis using RunNext run_next_consistent(2) [OF inv] by (simp add: apply_op_def)
  qed
qed

lemma run_consistent:
  assumes "consistent None w"
  shows "run d ops w \<noteq> Inl UndefinedBehaviour \<and> (\<forall>w'. run d ops w = Inr w' \<longrightarrow> consistent None w')"
  using assms
proof (induction ops arbitrary: w)
  case Nil
  then show ?case by simp
next
  case (Cons op ops)
  show ?case
  proof (cases "apply_op d op w")
    case (Inl e)
    then show ?thesis using apply_op_consistent(1) [OF Cons.prems, of d op] by simp
  next
    case (Inr w1)
    then have "consistent None w1" using apply_op_consistent(2) [OF Cons.prems] by blast
    then show ?thesis using Cons.IH Inr by simp
  qed
qed

section \<open>Code that only destroys\<close>

lemma flags_wind_down_refl [simp]: "flags_wind_down obj obj"
  by (auto simp add: flags_wind_down_def)

lemma flags_wind_down_trans:
  "flags_wind_down o1 o2 \<Longrightarrow> flags_wind_down o2 o3 \<Longrightarrow> flags_wind_down o1 o3"
  by (auto simp add: flags_wind_down_def split: if_splits)

lemma winding_down_refl: "winding_down w w"
  by (auto simp add: winding_down_def)

lemma winding_down_trans:
  assumes "winding_down w w1" "winding_down w1 w2"
  shows "winding_down w w2"
  using assms unfolding winding_down_def
  by (metis flags_wind_down_trans option.exhaust)

lemma flags_wind_down_cleared [simp]:
  "flags_wind_down obj (setIsInitialized False obj)"
  by (auto simp add: flags_wind_down_def setIsInitialized_def setFlag_def)

lemma flags_wind_down_scheduled [simp]:
  "requiresInitOnCoreThread obj \<Longrightarrow> flags_wind_down obj (setScheduledToBeDeleted True obj)"
  by (auto simp add: flags_wind_down_def setScheduledToBeDeleted_def setFlag_def requiresInitOnCoreThread_def)

lemma flags_wind_down_both [simp]:
  "requiresInitOnCoreThread obj \<Longrightarrow> flags_wind_down obj (setIsInitialized False (setScheduledToBeDeleted True obj))"
  by (auto simp add: flags_wind_down_def setScheduledToBeDeleted_def setFlag_def requiresInitOnCoreThread_def setIsInitialized_def)

lemma flags_wind_down_mThis [simp]:
  "flags_wind_down obj (obj'\<lparr>mThis := p\<rparr>) = flags_wind_down obj obj'"
  by (auto simp add: flags_wind_down_def)

lemma destroy_internal_winding:
  "destroy_internal d a w = Inr w' \<Longrightarrow> winding_down w w'"
  by (auto simp add: destroy_internal_def winding_down_def 
      split: option.splits if_splits)

lemma destroy_winding:
  "destroy d t a w = Inr w' \<Longrightarrow> winding_down w w'"
  by (auto simp add: destroy_def destroy_internal_def winding_down_def
     Let_def queueDestroyGpuCommand_def queueCommand_def copy_shared_def
      split: option.splits if_splits)

lemma delete_object_winding:
  "delete_object d a w = Inr w' \<Longrightarrow> winding_down w w'"
  by (auto simp add: delete_object_def CoreObject_dtor_def unregisterObject_def winding_down_def
      split: option.splits if_splits sum.splits)

lemma winding_down_frame [simp]:
  "winding_down (w\<lparr>blocks := b\<rparr>) w' = winding_down w w'"
  "winding_down (w\<lparr>nextBlock := n\<rparr>) w' = winding_down w w'"
  "winding_down (w\<lparr>clientRefs := r\<rparr>) w' = winding_down w w'"
  "winding_down (w\<lparr>commandQueue := q\<rparr>) w' = winding_down w w'"
  "winding_down w (w'\<lparr>blocks := b\<rparr>) = winding_down w w'"
  "winding_down w (w'\<lparr>nextBlock := n\<rparr>) = winding_down w w'"
  "winding_down w (w'\<lparr>clientRefs := r\<rparr>) = winding_down w w'"
  "winding_down w (w'\<lparr>commandQueue := q\<rparr>) = winding_down w w'"
  by (simp_all add: winding_down_def)

lemma winding_down_setThis:
  assumes "heap w a = Some obj"
  shows "winding_down w (w\<lparr>heap := (heap w)(a \<mapsto> obj\<lparr>mThis := p\<rparr>)\<rparr>)"
  using assms by (simp add: winding_down_def)

lemma release_default_winding:
  "release_default d c w = Inr w' \<Longrightarrow> winding_down w w'"
  by (auto simp add: release_default_def Let_def winding_down_refl
      split: option.splits if_splits dest: delete_object_winding)

lemma deleteDelayed_winding:
  assumes "deleteDelayed d t a w = Inr w'"
  shows "winding_down w w'"
proof -
  obtain obj where obj: "heap w a = Some obj"
    using assms by (auto simp add: deleteDelayed_def deleteDelayedInternal_def split: option.splits)
  let ?res = "w\<lparr>blocks := (blocks w)(nextBlock w \<mapsto> \<lparr>managed = a, use_count = 1, deleter = DefaultDelete\<rparr>),
              nextBlock := Suc (nextBlock w),
              heap := (heap w)(a \<mapsto> obj\<lparr>mThis := Some (nextBlock w)\<rparr>)\<rparr>"
  from assms obj consider (del) "delete_object d a w = Inr w'"
    | (dest) w4 where "destroy d t a ?res = Inr w4" "release_default d (nextBlock w) w4 = Inr w'"
    by (auto simp add: deleteDelayed_def deleteDelayedInternal_def new_block_def setThisPtr_def Let_def
        split: if_splits sum.splits)
  then show ?thesis
  proof cases
    case del
    then show ?thesis by (rule delete_object_winding)
  next
    case dest
    have "winding_down ?res w'"
      using destroy_winding [OF dest(1)] release_default_winding [OF dest(2)]
      by (rule winding_down_trans)
    then have "winding_down (w\<lparr>heap := (heap w)(a \<mapsto> obj\<lparr>mThis := Some (nextBlock w)\<rparr>)\<rparr>) w'"
      by (simp add: winding_down_def)
    then show ?thesis
      using winding_down_setThis [OF obj] winding_down_trans by blast
  qed
qed

lemma release_shared_winding:
  "release_shared d t p w = Inr w' \<Longrightarrow> winding_down w w'"
  by (auto simp add: release_shared_def Let_def winding_down_refl
      split: option.splits if_splits deleter.splits
      dest: delete_object_winding deleteDelayed_winding)

section \<open>initialize, destroy and the destructor\<close>

lemma lock_heap [simp]: "lock (w\<lparr>heap := h\<rparr>) p = lock w p"
  by (simp add: lock_def cong: option.case_cong)

lemma get_ptr_heap [simp]: "get_ptr (w\<lparr>heap := h\<rparr>) p = get_ptr w p"
  by (simp add: get_ptr_def cong: option.case_cong)

lemma heap_queue_command [simp]:
  "heap (queueDestroyGpuCommand p w) = heap w"
  "heap (queueInitializeGpuCommand p w) = heap w"
  by (simp_all add: queueDestroyGpuCommand_def queueInitializeGpuCommand_def queueCommand_def
      copy_shared_def split: option.splits)

lemma events_queue_command [simp]:
  "events (queueDestroyGpuCommand p w) = events w"
  "events (queueInitializeGpuCommand p w) = events w"
  by (simp_all add: queueDestroyGpuCommand_def queueInitializeGpuCommand_def queueCommand_def
      copy_shared_def split: option.splits)

lemma flags_of_other_setters [simp]:
  "isInitialized (setScheduledToBeDeleted b obj) = isInitialized obj"
  "isInitialized (setScheduledToBeInitialized b obj) = isInitialized obj"
  "isScheduledToBeInitialized (setIsInitialized b obj) = isScheduledToBeInitialized obj"
  "isScheduledToBeInitialized (setScheduledToBeDeleted b obj) = isScheduledToBeInitialized obj"
  "isScheduledToBeDeleted (setIsInitialized b obj) = isScheduledToBeDeleted obj"
  "isScheduledToBeDeleted (setScheduledToBeInitialized b obj) = isScheduledToBeDeleted obj"
  "requiresInitOnCoreThread (setIsInitialized b obj) = requiresInitOnCoreThread obj"
  "requiresInitOnCoreThread (setScheduledToBeInitialized b obj) = requiresInitOnCoreThread obj"
  "requiresInitOnCoreThread (setScheduledToBeDeleted b obj) = requiresInitOnCoreThread obj"
  by (auto simp add: isInitialized_def isScheduledToBeInitialized_def isScheduledToBeDeleted_def
      requiresInitOnCoreThread_def setIsInitialized_def setScheduledToBeInitialized_def
      setScheduledToBeDeleted_def setFlag_def)


lemmas eval_defs =
  apply_op_def create_def CoreObject_ctor_def registerObject_def new_block_def setThisPtr_def
  empty_world_def initialize_def initialize_internal_def destroy_def destroy_internal_def
  queueInitializeGpuCommand_def queueDestroyGpuCommand_def queueCommand_def copy_shared_def
  lock_def get_ptr_def expired_def run_next_def executeGpuCommand_def release_shared_def
  release_default_def deleteDelayed_def deleteDelayedInternal_def delete_object_def
  CoreObject_dtor_def unregisterObject_def Let_def
  isInitialized_def isScheduledToBeInitialized_def isScheduledToBeDeleted_def
  requiresInitOnCoreThread_def setIsInitialized_def setScheduledToBeInitialized_def
  setScheduledToBeDeleted_def setFlag_def

text \<open>
  C3. For a resource that does not initialize on the core thread, initialize() and
  destroy() run on the calling thread, whatever thread that is: when they return, the
  world differs from the one before only in the flags of the resource itself (nothing
  is queued), and the resource is initialized after initialize() and not initialized
  after destroy(). They raise only through the debug checks: initialize() on a resource
  already initialized or scheduled, destroy() on one that is not initialized.
\<close>

theorem direct_initialize_destroy_synchronous:
  assumes "heap w this = Some obj" and "\<not> requiresInitOnCoreThread obj"
  shows "(\<not> (d \<and> (isInitialized obj \<or> isScheduledToBeInitialized obj)) \<longrightarrow>
            (\<exists>obj'. initialize d t this w = Inr (w\<lparr>heap := (heap w)(this \<mapsto> obj')\<rparr>)
                  \<and> isInitialized obj'))
       \<and> (d \<and> (isInitialized obj \<or> isScheduledToBeInitialized obj) \<longrightarrow>
            initialize d t this w = Inl (InternalErrorException AlreadyInitialized))
       \<and> (\<not> (d \<and> \<not> isInitialized obj) \<longrightarrow>
            (\<exists>obj'. destroy d t this w = Inr (w\<lparr>heap := (heap w)(this \<mapsto> obj')\<rparr>)
                  \<and> \<not> isInitialized obj'))
       \<and> (d \<and> \<not> isInitialized obj \<longrightarrow>
            destroy d t this w = Inl (InternalErrorException AlreadyDestroyedOrNeverInitialized))"
proof -
  have i: "initialize d t this w =
      (if d \<and> (isInitialized obj \<or> isScheduledToBeInitialized obj)
       then Inl (InternalErrorException AlreadyInitialized)
       else Inr (w\<lparr>heap := (heap w)(this \<mapsto> setIsInitialized True obj)\<rparr>))"
    using assms by (simp add: initialize_def initialize_internal_def)
  have k: "destroy d t this w =
      (if d \<and> \<not> isInitialized obj
       then Inl (InternalErrorException AlreadyDestroyedOrNeverInitialized)
       else Inr (w\<lparr>heap := (heap w)(this \<mapsto> setIsInitialized False obj)\<rparr>))"
    using assms by (simp add: destroy_def destroy_internal_def)
  have a: "isInitialized (setIsInitialized True obj)" by simp
  have b: "\<not> isInitialized (setIsInitialized False obj)" by simp
  show ?thesis
    unfolding i k using a b by auto
qed

theorem direct_initialize_destroy_synchronous_witness:
  "(\<exists>obj'. initialize True 1 0 (CoreObject_ctor False 0 (empty_world 9))
            = Inr ((CoreObject_ctor False 0 (empty_world 9))
                     \<lparr>heap := (heap (CoreObject_ctor False 0 (empty_world 9)))(0 \<mapsto> obj')\<rparr>)
         \<and> isInitialized obj')
   \<and> destroy True 1 0 (CoreObject_ctor False 0 (empty_world 9))
       = Inl (InternalErrorException AlreadyDestroyedOrNeverInitialized)"
proof -
  have h1: "heap (CoreObject_ctor False 0 (empty_world 9)) 0
              = Some \<lparr>mFlags = {}, mInternalID = 0, mThis = None\<rparr>"
    by (simp add: CoreObject_ctor_def registerObject_def empty_world_def)
  have h2: "\<not> requiresInitOnCoreThread \<lparr>mFlags = {}, mInternalID = 0, mThis = None\<rparr>"
    by (simp add: requiresInitOnCoreThread_def)
  show ?thesis
    using direct_initialize_destroy_synchronous [OF h1 h2, of True 1]
    by (simp add: isInitialized_def isScheduledToBeInitialized_def)
qed





text \<open>
  C8. For a resource that initializes on the core thread, initialize() (once past its
  debug check) and destroy() promote the weak self-reference \<open>mThis\<close> and pass the result
  on. When \<open>mThis\<close> was bound (\<open>_setThisPtr\<close> stores the pointer it is given) to a control
  block that still has an owner, the promotion yields that shared pointer: on the core
  thread the internal method is called on the object it manages, on any other thread a
  command holding the shared pointer is queued. When \<open>mThis\<close> is unbound or expired the
  promotion yields null: on the core thread the member call through it is undefined, on
  any other thread the queued command holds a null pointer and is bound to a null
  object, and executing such a command is undefined.
\<close>

theorem self_reference_precondition:
  assumes "heap w this = Some obj" and "requiresInitOnCoreThread obj"
  shows "(\<exists>w'. setThisPtr p this w = Inr w' \<and> map_option mThis (heap w' this) = Some p)
       \<and> (\<forall>c cb. mThis obj = Some c \<and> blocks w c = Some cb \<and> 0 < use_count cb \<longrightarrow>
            lock w (mThis obj) = Some c
          \<and> initialize d (coreThreadId w) this w
              = (if d \<and> (isInitialized obj \<or> isScheduledToBeInitialized obj)
                 then Inl (InternalErrorException AlreadyInitialized)
                 else initialize_internal (managed cb)
                        (w\<lparr>heap := (heap w)(this \<mapsto> setScheduledToBeInitialized True obj)\<rparr>))
          \<and> destroy d (coreThreadId w) this w
              = destroy_internal d (managed cb)
                  (w\<lparr>heap := (heap w)(this \<mapsto> setScheduledToBeDeleted True obj)\<rparr>)
          \<and> (t \<noteq> coreThreadId w \<longrightarrow>
                initialize d t this w
                  = (if d \<and> (isInitialized obj \<or> isScheduledToBeInitialized obj)
                     then Inl (InternalErrorException AlreadyInitialized)
                     else Inr (queueCommand
                          (ExecuteGpuCommand (Some c) (Bind_initialize_internal (Some (managed cb))))
                          (copy_shared (Some c)
                            (w\<lparr>heap := (heap w)(this \<mapsto> setScheduledToBeInitialized True obj)\<rparr>))))
              \<and> destroy d t this w
                  = Inr (queueCommand
                          (ExecuteGpuCommand (Some c) (Bind_destroy_internal (Some (managed cb))))
                          (copy_shared (Some c)
                            (w\<lparr>heap := (heap w)(this \<mapsto> setScheduledToBeDeleted True obj)\<rparr>)))))
       \<and> (expired w (mThis obj) \<longrightarrow>
            lock w (mThis obj) = None
          \<and> initialize d (coreThreadId w) this w
              = (if d \<and> (isInitialized obj \<or> isScheduledToBeInitialized obj)
                 then Inl (InternalErrorException AlreadyInitialized)
                 else Inl UndefinedBehaviour)
          \<and> destroy d (coreThreadId w) this w = Inl UndefinedBehaviour
          \<and> (t \<noteq> coreThreadId w \<longrightarrow>
                initialize d t this w
                  = (if d \<and> (isInitialized obj \<or> isScheduledToBeInitialized obj)
                     then Inl (InternalErrorException AlreadyInitialized)
                     else Inr (queueCommand (ExecuteGpuCommand None (Bind_initialize_internal None))
                          (w\<lparr>heap := (heap w)(this \<mapsto> setScheduledToBeInitialized True obj)\<rparr>)))
              \<and> destroy d t this w
                  = Inr (queueCommand (ExecuteGpuCommand None (Bind_destroy_internal None))
                          (w\<lparr>heap := (heap w)(this \<mapsto> setScheduledToBeDeleted True obj)\<rparr>))))
       \<and> (executeGpuCommand d None (Bind_initialize_internal None) w2 = Inl UndefinedBehaviour
          \<and> executeGpuCommand d None (Bind_destroy_internal None) w2 = Inl UndefinedBehaviour)"
proof -
  have bind: "\<exists>w'. setThisPtr p this w = Inr w' \<and> map_option mThis (heap w' this) = Some p"
    using assms(1) by (simp add: setThisPtr_def)
  have live: "\<forall>c cb. mThis obj = Some c \<and> blocks w c = Some cb \<and> 0 < use_count cb \<longrightarrow>
            lock w (mThis obj) = Some c
          \<and> initialize d (coreThreadId w) this w
              = (if d \<and> (isInitialized obj \<or> isScheduledToBeInitialized obj)
                 then Inl (InternalErrorException AlreadyInitialized)
                 else initialize_internal (managed cb)
                        (w\<lparr>heap := (heap w)(this \<mapsto> setScheduledToBeInitialized True obj)\<rparr>))
          \<and> destroy d (coreThreadId w) this w
              = destroy_internal d (managed cb)
                  (w\<lparr>heap := (heap w)(this \<mapsto> setScheduledToBeDeleted True obj)\<rparr>)
          \<and> (t \<noteq> coreThreadId w \<longrightarrow>
                initialize d t this w
                  = (if d \<and> (isInitialized obj \<or> isScheduledToBeInitialized obj)
                     then Inl (InternalErrorException AlreadyInitialized)
                     else Inr (queueCommand
                          (ExecuteGpuCommand (Some c) (Bind_initialize_internal (Some (managed cb))))
                          (copy_shared (Some c)
                            (w\<lparr>heap := (heap w)(this \<mapsto> setScheduledToBeInitialized True obj)\<rparr>))))
              \<and> destroy d t this w
                  = Inr (queueCommand
                          (ExecuteGpuCommand (Some c) (Bind_destroy_internal (Some (managed cb))))
                          (copy_shared (Some c)
                            (w\<lparr>heap := (heap w)(this \<mapsto> setScheduledToBeDeleted True obj)\<rparr>))))"
    using assms
    by (auto simp add: initialize_def destroy_def Let_def lock_def get_ptr_def
        queueInitializeGpuCommand_def queueDestroyGpuCommand_def)
  have dead: "expired w (mThis obj) \<longrightarrow>
            lock w (mThis obj) = None
          \<and> initialize d (coreThreadId w) this w
              = (if d \<and> (isInitialized obj \<or> isScheduledToBeInitialized obj)
                 then Inl (InternalErrorException AlreadyInitialized)
                 else Inl UndefinedBehaviour)
          \<and> destroy d (coreThreadId w) this w = Inl UndefinedBehaviour
          \<and> (t \<noteq> coreThreadId w \<longrightarrow>
                initialize d t this w
                  = (if d \<and> (isInitialized obj \<or> isScheduledToBeInitialized obj)
                     then Inl (InternalErrorException AlreadyInitialized)
                     else Inr (queueCommand (ExecuteGpuCommand None (Bind_initialize_internal None))
                          (w\<lparr>heap := (heap w)(this \<mapsto> setScheduledToBeInitialized True obj)\<rparr>)))
              \<and> destroy d t this w
                  = Inr (queueCommand (ExecuteGpuCommand None (Bind_destroy_internal None))
                          (w\<lparr>heap := (heap w)(this \<mapsto> setScheduledToBeDeleted True obj)\<rparr>)))"
  proof (intro impI)
    assume "expired w (mThis obj)"
    then have none: "lock w (mThis obj) = None" by (simp add: expired_def)
    show "lock w (mThis obj) = None
          \<and> initialize d (coreThreadId w) this w
              = (if d \<and> (isInitialized obj \<or> isScheduledToBeInitialized obj)
                 then Inl (InternalErrorException AlreadyInitialized)
                 else Inl UndefinedBehaviour)
          \<and> destroy d (coreThreadId w) this w = Inl UndefinedBehaviour
          \<and> (t \<noteq> coreThreadId w \<longrightarrow>
                initialize d t this w
                  = (if d \<and> (isInitialized obj \<or> isScheduledToBeInitialized obj)
                     then Inl (InternalErrorException AlreadyInitialized)
                     else Inr (queueCommand (ExecuteGpuCommand None (Bind_initialize_internal None))
                          (w\<lparr>heap := (heap w)(this \<mapsto> setScheduledToBeInitialized True obj)\<rparr>)))
              \<and> destroy d t this w
                  = Inr (queueCommand (ExecuteGpuCommand None (Bind_destroy_internal None))
                          (w\<lparr>heap := (heap w)(this \<mapsto> setScheduledToBeDeleted True obj)\<rparr>)))"
      using assms none
      by (auto simp add: initialize_def destroy_def Let_def get_ptr_def
          queueInitializeGpuCommand_def queueDestroyGpuCommand_def copy_shared_def)
  qed
  have exec: "executeGpuCommand d None (Bind_initialize_internal None) w2 = Inl UndefinedBehaviour
          \<and> executeGpuCommand d None (Bind_destroy_internal None) w2 = Inl UndefinedBehaviour"
    by (simp add: executeGpuCommand_def)
  show ?thesis
    by (rule conjI [OF bind conjI [OF live conjI [OF dead exec]]])
qed

theorem self_reference_precondition_witness:
  "initialize True 9 0 (CoreObject_ctor True 0 (empty_world 9)) = Inl UndefinedBehaviour
   \<and> destroy True 9 0 (CoreObject_ctor True 0 (empty_world 9)) = Inl UndefinedBehaviour
   \<and> commandQueue (projr (destroy True 1 0 (CoreObject_ctor True 0 (empty_world 9))))
       = [ExecuteGpuCommand None (Bind_destroy_internal None)]
   \<and> commandQueue (projr (destroy True 1 0
         (projr (run True [Create True 0, Initialize 9 0] (empty_world 9)))))
       = [ExecuteGpuCommand (Some 0) (Bind_destroy_internal (Some 0))]
   \<and> count_of (projr (destroy True 1 0
         (projr (run True [Create True 0, Initialize 9 0] (empty_world 9))))) 0 = 2
   \<and> map_option mFlags (heap (projr (destroy True 9 0
         (projr (run True [Create True 0, Initialize 9 0] (empty_world 9))))) 0)
       = Some {CGO_INIT_ON_CORE_THREAD, CGO_SCHEDULED_FOR_DELETE}"
proof -
  let ?fresh = "CoreObject_ctor True 0 (empty_world 9)"
  let ?unbound = "\<lparr>mFlags = {CGO_INIT_ON_CORE_THREAD}, mInternalID = 0, mThis = None\<rparr>"
  let ?w = "projr (run True [Create True 0, Initialize 9 0] (empty_world 9))"
  let ?obj = "\<lparr>mFlags = {CGO_INITIALIZED, CGO_INIT_ON_CORE_THREAD}, mInternalID = 0,
               mThis = Some 0\<rparr>"
  let ?cb = "\<lparr>managed = 0, use_count = 1, deleter = DeleteDelayed\<rparr>"
  have f1: "heap ?fresh 0 = Some ?unbound"
    by (simp add: CoreObject_ctor_def registerObject_def empty_world_def)
  have f2: "requiresInitOnCoreThread ?unbound"
    by (simp add: requiresInitOnCoreThread_def)
  have f3: "coreThreadId ?fresh = 9" "commandQueue ?fresh = []" "expired ?fresh (mThis ?unbound)"
    by (simp_all add: CoreObject_ctor_def registerObject_def empty_world_def expired_def lock_def)
  have f4: "\<not> isInitialized ?unbound" "\<not> isScheduledToBeInitialized ?unbound"
    by (simp_all add: isInitialized_def isScheduledToBeInitialized_def)
  have unbound: "initialize True 9 0 ?fresh = Inl UndefinedBehaviour
      \<and> destroy True 9 0 ?fresh = Inl UndefinedBehaviour
      \<and> destroy True 1 0 ?fresh
          = Inr (queueCommand (ExecuteGpuCommand None (Bind_destroy_internal None))
                  (?fresh\<lparr>heap := (heap ?fresh)(0 \<mapsto> setScheduledToBeDeleted True ?unbound)\<rparr>))"
    using self_reference_precondition [OF f1 f2, of None True 1] f3 f4 by simp
  have h1: "heap ?w 0 = Some ?obj"
    by (simp add: eval_defs insert_Diff_if insert_commute)
  have h2: "requiresInitOnCoreThread ?obj"
    by (simp add: requiresInitOnCoreThread_def)
  have h3: "coreThreadId ?w = 9" "commandQueue ?w = []" "blocks ?w 0 = Some ?cb"
    by (simp_all add: eval_defs)
  have bound: "destroy True 9 0 ?w
          = destroy_internal True 0 (?w\<lparr>heap := (heap ?w)(0 \<mapsto> setScheduledToBeDeleted True ?obj)\<rparr>)
      \<and> destroy True 1 0 ?w
          = Inr (queueCommand (ExecuteGpuCommand (Some 0) (Bind_destroy_internal (Some 0)))
                  (copy_shared (Some 0)
                    (?w\<lparr>heap := (heap ?w)(0 \<mapsto> setScheduledToBeDeleted True ?obj)\<rparr>)))"
    using self_reference_precondition [OF h1 h2, of None True 1] h3 by simp
  show ?thesis
    using unbound bound h3 f3
    by (simp add: queueCommand_def copy_shared_def count_of_def destroy_internal_def
        isInitialized_def setScheduledToBeDeleted_def setIsInitialized_def setFlag_def
        insert_Diff_if insert_commute)
qed

section \<open>The flags between operations\<close>

lemma wind_down_keeps_ok:
  "flags_wind_down obj obj' \<Longrightarrow> lifecycle_flags_ok obj \<Longrightarrow> lifecycle_flags_ok obj'"
  by (auto simp add: flags_wind_down_def lifecycle_flags_ok_def isInitialized_def
      isScheduledToBeInitialized_def isScheduledToBeDeleted_def requiresInitOnCoreThread_def
      split: if_splits)

lemma wind_down_advances:
  "flags_wind_down obj obj' \<Longrightarrow> flags_advance obj obj'"
  by (auto simp add: flags_wind_down_def flags_advance_def
      isScheduledToBeDeleted_def requiresInitOnCoreThread_def
      split: if_splits)


lemma wind_down_scheduled:
  "flags_wind_down obj obj' \<Longrightarrow> isScheduledToBeInitialized obj' = isScheduledToBeInitialized obj"
  by (auto simp add: flags_wind_down_def isScheduledToBeInitialized_def split: if_splits)

lemma winding_down_keeps_ok:
  "winding_down w w' \<Longrightarrow> all_flags_ok w \<Longrightarrow> all_flags_ok w'"
  unfolding winding_down_def all_flags_ok_def
  by (metis wind_down_keeps_ok option.exhaust)

lemma winding_down_advancing:
  "winding_down w w' \<Longrightarrow> advancing w w'"
  unfolding winding_down_def advancing_def
  using wind_down_advances by blast

lemma flags_advance_refl [simp]: "flags_advance obj obj"
  by (simp add: flags_advance_def)

lemma flags_advance_trans:
  "flags_advance o1 o2 \<Longrightarrow> flags_advance o2 o3 \<Longrightarrow> flags_advance o1 o3"
  by (auto simp add: flags_advance_def)

lemma advancing_refl: "advancing w w"
  by (auto simp add: advancing_def)

lemma advancing_trans:
  assumes "advancing w w1" "advancing w1 w2"
  shows "advancing w w2"
  using assms unfolding advancing_def
  by (metis flags_advance_trans option.exhaust)

lemma initialize_internal_ok:
  "initialize_internal a w = Inr w' \<Longrightarrow> all_flags_ok w \<Longrightarrow> all_flags_ok w'"
  by (auto simp add: initialize_internal_def all_flags_ok_def lifecycle_flags_ok_def
      split: option.splits if_splits)

lemma initialize_internal_advancing:
  "initialize_internal a w = Inr w' \<Longrightarrow> advancing w w'"
  by (auto simp add: initialize_internal_def advancing_def flags_advance_def
      split: option.splits if_splits)

lemma initialize_ok:
  "initialize True t a w = Inr w' \<Longrightarrow> all_flags_ok w \<Longrightarrow> all_flags_ok w'"
  by (auto simp add: initialize_def initialize_internal_def all_flags_ok_def lifecycle_flags_ok_def
      Let_def
      split: option.splits if_splits)

lemma initialize_advancing:
  "initialize d t a w = Inr w' \<Longrightarrow> advancing w w'"
  by (auto simp add: initialize_def initialize_internal_def advancing_def flags_advance_def
      Let_def
      split: option.splits if_splits)


lemma create_heap:
  "create b a w = Inr w' \<Longrightarrow>
     (heap w a \<noteq> None \<and> w' = w)
   \<or> (heap w a = None
      \<and> heap w' = (heap w)(a \<mapsto> \<lparr>mFlags = (if b then {CGO_INIT_ON_CORE_THREAD} else {}),
                               mInternalID = mNextAvailableID w, mThis = Some (nextBlock w)\<rparr>)
      \<and> events w' = events w)"
  by (auto simp add: create_def CoreObject_ctor_def registerObject_def new_block_def
      setThisPtr_def Let_def split: if_splits)

lemma create_ok:
  assumes "create b a w = Inr w'" "all_flags_ok w"
  shows "all_flags_ok w'"
  using create_heap [OF assms(1)] assms(2)
  by (auto simp add: all_flags_ok_def lifecycle_flags_ok_def isScheduledToBeInitialized_def
      isScheduledToBeDeleted_def split: if_splits)

lemma destroy_internal_ok:
  "destroy_internal d a w = Inr w' \<Longrightarrow> all_flags_ok w \<Longrightarrow> all_flags_ok w'"
  using destroy_internal_winding winding_down_keeps_ok by blast

lemma destroy_ok:
  "destroy d t a w = Inr w' \<Longrightarrow> all_flags_ok w \<Longrightarrow> all_flags_ok w'"
  using destroy_winding winding_down_keeps_ok by blast

lemma destroy_advancing:
  "destroy d t a w = Inr w' \<Longrightarrow> advancing w w'"
  using destroy_winding winding_down_advancing by blast

lemma destroy_internal_advancing:
  "destroy_internal d a w = Inr w' \<Longrightarrow> advancing w w'"
  using destroy_internal_winding winding_down_advancing by blast

lemma release_client_winding:
  assumes "release_shared d t (Some c) (w\<lparr>clientRefs := r\<rparr>) = Inr w'"
  shows "winding_down w w'"
  using release_shared_winding [OF assms] by simp

lemma executeGpuCommand_ok:
  assumes "executeGpuCommand d p func w = Inr w'" "all_flags_ok w"
  shows "all_flags_ok w'"
  using assms initialize_internal_ok destroy_internal_ok
  by (auto simp add: executeGpuCommand_def split: bound_method.splits option.splits)

lemma executeGpuCommand_advancing:
  assumes "executeGpuCommand d p func w = Inr w'"
  shows "advancing w w'"
  using assms initialize_internal_advancing destroy_internal_advancing
  by (auto simp add: executeGpuCommand_def split: bound_method.splits option.splits)

lemma all_flags_ok_frame [simp]:
  "all_flags_ok (w\<lparr>commandQueue := q\<rparr>) = all_flags_ok w"
  "all_flags_ok (w\<lparr>clientRefs := r\<rparr>) = all_flags_ok w"
  "all_flags_ok (w\<lparr>blocks := bl\<rparr>) = all_flags_ok w"
  by (simp_all add: all_flags_ok_def)

lemma advancing_frame [simp]:
  "advancing (w\<lparr>commandQueue := q\<rparr>) w' = advancing w w'"
  "advancing (w\<lparr>clientRefs := r\<rparr>) w' = advancing w w'"
  "advancing (w\<lparr>blocks := bl\<rparr>) w' = advancing w w'"
  "advancing w (w'\<lparr>commandQueue := q\<rparr>) = advancing w w'"
  "advancing w (w'\<lparr>clientRefs := r\<rparr>) = advancing w w'"
  "advancing w (w'\<lparr>blocks := bl\<rparr>) = advancing w w'"
  by (simp_all add: advancing_def)

lemma run_next_ok:
  assumes "run_next d w = Inr w'" "all_flags_ok w"
  shows "all_flags_ok w'"
proof (cases "commandQueue w")
  case Nil
  then show ?thesis using assms by (simp add: run_next_def)
next
  case (Cons cmd rest)
  obtain p func where cmd: "cmd = ExecuteGpuCommand p func" by (cases cmd)
  obtain w1 where w1: "executeGpuCommand d p func (w\<lparr>commandQueue := rest\<rparr>) = Inr w1"
      and rel: "release_shared d (coreThreadId w1) p w1 = Inr w'"
    using assms(1) Cons cmd by (auto simp add: run_next_def split: sum.splits)
  have "all_flags_ok w1"
    using executeGpuCommand_ok [OF w1] assms(2) by simp
  then show ?thesis
    using release_shared_winding [OF rel] winding_down_keeps_ok by blast
qed

lemma run_next_advancing:
  assumes "run_next d w = Inr w'"
  shows "advancing w w'"
proof (cases "commandQueue w")
  case Nil
  then show ?thesis using assms by (simp add: run_next_def advancing_refl)
next
  case (Cons cmd rest)
  obtain p func where cmd: "cmd = ExecuteGpuCommand p func" by (cases cmd)
  obtain w1 where w1: "executeGpuCommand d p func (w\<lparr>commandQueue := rest\<rparr>) = Inr w1"
      and rel: "release_shared d (coreThreadId w1) p w1 = Inr w'"
    using assms(1) Cons cmd by (auto simp add: run_next_def split: sum.splits)
  have "advancing w w1"
    using executeGpuCommand_advancing [OF w1] by simp
  then show ?thesis
    using release_shared_winding [OF rel] winding_down_advancing advancing_trans by blast
qed

lemma copy_shared_heap [simp]: "heap (copy_shared p w) = heap w"
  by (simp add: copy_shared_def split: option.splits)

lemma apply_op_ok:
  assumes "apply_op True op w = Inr w'" "all_flags_ok w"
  shows "all_flags_ok w'"
proof (cases op)
  case (Create b a)
  then show ?thesis using assms create_ok by (simp add: apply_op_def)
next
  case (Initialize t c)
  then show ?thesis
    using assms initialize_ok
    by (auto simp add: apply_op_def split: if_splits option.splits)
next
  case (Destroy t c)
  then show ?thesis
    using assms destroy_ok
    by (auto simp add: apply_op_def split: if_splits option.splits)
next
  case (Copy c)
  then show ?thesis
    using assms by (auto simp add: apply_op_def all_flags_ok_def split: if_splits)
next
  case (Release t c)
  show ?thesis
  proof (cases "clientRefs w c = 0")
    case True
    then show ?thesis using assms Release by (simp add: apply_op_def)
  next
    case False
    then have "winding_down w w'"
      using assms(1) Release release_client_winding by (simp add: apply_op_def)
    then show ?thesis using assms(2) winding_down_keeps_ok by blast
  qed
next
  case RunNext
  then show ?thesis using assms run_next_ok by (simp add: apply_op_def)
qed

lemma run_ok:
  "run True ops w = Inr w' \<Longrightarrow> all_flags_ok w \<Longrightarrow> all_flags_ok w'"
proof (induction ops arbitrary: w)
  case Nil
  then show ?case by simp
next
  case (Cons op ops)
  then show ?case
    by (auto split: sum.splits dest: apply_op_ok)
qed

lemma all_flags_ok_empty: "all_flags_ok (empty_world core_id)"
  by (simp add: all_flags_ok_def empty_world_def)

lemma apply_op_advances:
  assumes res: "apply_op d op w = Inr w'" and obj: "heap w a = Some obj" and obj': "heap w' a = Some obj'"
  shows "flags_advance obj obj'"
proof -
  have adv: "advancing w w' \<Longrightarrow> flags_advance obj obj'"
    using obj obj' by (simp add: advancing_def)
  show ?thesis
  proof (cases op)
    case (Create b a2)
    then have "create b a2 w = Inr w'" using res by (simp add: apply_op_def)
    then show ?thesis
      using create_heap [of b a2 w w'] obj obj' by (auto split: if_splits)
  next
    case (Initialize t c)
    then show ?thesis
      using res adv initialize_advancing advancing_refl
      by (auto simp add: apply_op_def split: if_splits option.splits)
  next
    case (Destroy t c)
    then show ?thesis
      using res adv destroy_advancing advancing_refl
      by (auto simp add: apply_op_def split: if_splits option.splits)
  next
    case (Copy c)
    then show ?thesis
      using res obj obj' by (auto simp add: apply_op_def split: if_splits)
  next
    case (Release t c)
    show ?thesis
    proof (cases "clientRefs w c = 0")
      case True
      then show ?thesis using res Release obj obj' by (simp add: apply_op_def)
    next
      case False
      then have "winding_down w w'"
        using res Release release_client_winding by (simp add: apply_op_def)
      then have "advancing w w'"
        by (rule winding_down_advancing)
      then show ?thesis by (rule adv)
    qed
  next
    case RunNext
    then show ?thesis using res adv run_next_advancing by (simp add: apply_op_def)
  qed
qed


text \<open>
  C4, as stated, fails. After destroy() from a thread other than the core thread, an
  initialized resource that initializes on the core thread has the initialized flag and
  the scheduled-for-delete flag set at once. And a destroyed resource can be
  initialized again: the debug build accepts initialize() after destroy().
\<close>

theorem lifecycle_states_counterexample:
  "\<not> isl (run True [Create True 0, Initialize 9 0, Destroy 1 0] (empty_world 9))
   \<and> map_option mFlags
        (heap (projr (run True [Create True 0, Initialize 9 0, Destroy 1 0] (empty_world 9))) 0)
       = Some {CGO_INITIALIZED, CGO_INIT_ON_CORE_THREAD, CGO_SCHEDULED_FOR_DELETE}
   \<and> map_option mFlags
        (heap (projr (run True [Create False 0, Initialize 1 0] (empty_world 9))) 0)
       = Some {CGO_INITIALIZED}
   \<and> map_option mFlags
        (heap (projr (run True [Create False 0, Initialize 1 0, Destroy 1 0] (empty_world 9))) 0)
       = Some {}
   \<and> map_option mFlags
        (heap (projr (run True [Create False 0, Initialize 1 0, Destroy 1 0, Initialize 1 0]
                        (empty_world 9))) 0)
       = Some {CGO_INITIALIZED}"
  by (simp add: eval_defs insert_Diff_if insert_commute)


text \<open>
  C4, amended. The lifecycle of a resource is held in independent flags, not in one
  five-valued state. Between any two operations of a debug build, a resource scheduled
  to be initialized is not initialized, and only a resource that initializes on the
  core thread is ever scheduled to be initialized or scheduled to be deleted. No
  operation changes whether a resource initializes on the core thread, and none takes
  the scheduled-for-delete flag away again. Calling destroy() from a thread other than
  the core thread on an initialized resource that initializes on the core thread
  leaves it both initialized and scheduled for delete.
\<close>

theorem lifecycle_flags_invariant:
  assumes "run True ops (empty_world core_id) = Inr w" and "heap w a = Some obj"
  shows "(isScheduledToBeInitialized obj \<longrightarrow>
            requiresInitOnCoreThread obj \<and> \<not> isInitialized obj)
       \<and> (isScheduledToBeDeleted obj \<longrightarrow> requiresInitOnCoreThread obj)
       \<and> (\<forall>op w' obj'. apply_op True op w = Inr w' \<and> heap w' a = Some obj' \<longrightarrow>
            requiresInitOnCoreThread obj' = requiresInitOnCoreThread obj
          \<and> (isScheduledToBeDeleted obj \<longrightarrow> isScheduledToBeDeleted obj'))
       \<and> (\<forall>t c. 0 < clientRefs w c \<and> get_ptr w (Some c) = Some a
                \<and> requiresInitOnCoreThread obj \<and> isInitialized obj \<and> t \<noteq> coreThreadId w \<longrightarrow>
            (\<exists>w' obj'. apply_op True (Destroy t c) w = Inr w' \<and> heap w' a = Some obj'
                     \<and> isInitialized obj' \<and> isScheduledToBeDeleted obj'))"
proof -
  have "all_flags_ok w"
    using assms(1) all_flags_ok_empty by (rule run_ok)
  then have ok: "lifecycle_flags_ok obj"
    using assms(2) by (simp add: all_flags_ok_def)
  have step: "\<forall>op w' obj'. apply_op True op w = Inr w' \<and> heap w' a = Some obj' \<longrightarrow>
            requiresInitOnCoreThread obj' = requiresInitOnCoreThread obj
          \<and> (isScheduledToBeDeleted obj \<longrightarrow> isScheduledToBeDeleted obj')"
    using apply_op_advances [OF _ assms(2)] by (auto simp add: flags_advance_def)
  have both: "\<forall>t c. 0 < clientRefs w c \<and> get_ptr w (Some c) = Some a
                \<and> requiresInitOnCoreThread obj \<and> isInitialized obj \<and> t \<noteq> coreThreadId w \<longrightarrow>
            (\<exists>w' obj'. apply_op True (Destroy t c) w = Inr w' \<and> heap w' a = Some obj'
                     \<and> isInitialized obj' \<and> isScheduledToBeDeleted obj')"
    using assms(2) by (simp add: apply_op_def destroy_def Let_def)
  show ?thesis
    using ok step both unfolding lifecycle_flags_ok_def by blast
qed

theorem lifecycle_flags_invariant_witness:
  "\<exists>w' obj'. apply_op True (Destroy 1 0)
                (projr (run True [Create True 0, Initialize 9 0] (empty_world 9))) = Inr w'
            \<and> heap w' 0 = Some obj' \<and> isInitialized obj' \<and> isScheduledToBeDeleted obj'"
proof -
  let ?w = "projr (run True [Create True 0, Initialize 9 0] (empty_world 9))"
  have h1: "run True [Create True 0, Initialize 9 0] (empty_world 9) = Inr ?w"
    by (simp add: eval_defs)
  have h2: "heap ?w 0 = Some \<lparr>mFlags = {CGO_INITIALIZED, CGO_INIT_ON_CORE_THREAD},
                               mInternalID = 0, mThis = Some 0\<rparr>"
    by (simp add: eval_defs insert_Diff_if insert_commute)
  have h3: "0 < clientRefs ?w 0 \<and> get_ptr ?w (Some 0) = Some 0 \<and> 1 \<noteq> coreThreadId ?w"
    by (simp add: eval_defs)
  show ?thesis
    using lifecycle_flags_invariant [OF h1 h2] h3
    by (simp add: isInitialized_def requiresInitOnCoreThread_def)
qed

section \<open>Queued commands keep their resource alive\<close>

lemma flags_of_mThis_update [simp]:
  "isInitialized (obj\<lparr>mThis := p\<rparr>) = isInitialized obj"
  "isScheduledToBeInitialized (obj\<lparr>mThis := p\<rparr>) = isScheduledToBeInitialized obj"
  "isScheduledToBeDeleted (obj\<lparr>mThis := p\<rparr>) = isScheduledToBeDeleted obj"
  "requiresInitOnCoreThread (obj\<lparr>mThis := p\<rparr>) = requiresInitOnCoreThread obj"
  by (simp_all add: isInitialized_def isScheduledToBeInitialized_def isScheduledToBeDeleted_def
      requiresInitOnCoreThread_def)

lemma reachable_consistent:
  assumes "run d ops (empty_world core_id) = Inr w"
  shows "consistent None w"
  using run_consistent [OF consistent_empty, of d ops core_id] assms by simp

lemma reachable_defined:
  "run d ops (empty_world core_id) \<noteq> Inl UndefinedBehaviour"
  using run_consistent [OF consistent_empty, of d ops core_id] by simp

lemma queued_targets_live:
  assumes inv: "consistent None w" and cmd: "cmd \<in> set (commandQueue w)"
  shows "\<exists>c cb obj. command_ptr cmd = Some c \<and> blocks w c = Some cb \<and> 0 < use_count cb
           \<and> command_target cmd = Some (managed cb) \<and> heap w (managed cb) = Some obj"
proof -
  have "queue_ok w" using inv by (simp add: consistent_def)
  then obtain c cb where f: "blocks w c = Some cb" "command_ptr cmd = Some c"
      "command_target cmd = Some (managed cb)"
    using cmd unfolding queue_ok_def by blast
  have "filter (\<lambda>x. command_ptr x = Some c) (commandQueue w) \<noteq> []"
    using cmd f(2) by (auto simp add: filter_empty_conv)
  then have "0 < queue_count w c"
    by (simp add: queue_count_def)
  then obtain cb' where "blocks w c = Some cb'" "0 < use_count cb'"
    using consistent_owned [OF inv, of c] by blast
  then have pos: "0 < use_count cb" using f(1) by simp
  obtain obj where "heap w (managed cb) = Some obj"
    using inv f(1) pos by (rule consistent_live)
  then show ?thesis using f pos by blast
qed

lemma release_last_reference:
  assumes inv: "consistent None w" and held: "clientRefs w c = 1"
    and blk: "blocks w c = Some cb" and one: "use_count cb = 1"
    and del: "deleter cb = DeleteDelayed"
    and obj: "heap w (managed cb) = Some obj"
    and init: "isInitialized obj" and req: "requiresInitOnCoreThread obj"
    and nsched: "\<not> isScheduledToBeInitialized obj"
    and off: "t \<noteq> coreThreadId w"
  shows "\<exists>w' obj'. apply_op d (Release t c) w = Inr w' \<and> heap w' (managed cb) = Some obj'
           \<and> isInitialized obj' \<and> isScheduledToBeDeleted obj'
           \<and> commandQueue w' = commandQueue w @
                 [ExecuteGpuCommand (Some (nextBlock w)) (Bind_destroy_internal (Some (managed cb)))]
           \<and> count_of w' (nextBlock w) = 1"
proof -
  have "fresh_ok w" using inv by (simp add: consistent_def)
  then have fresh: "blocks w (nextBlock w) = None" by (simp add: fresh_ok_def)
  then have ne: "nextBlock w \<noteq> c" using blk by auto
  show ?thesis
    using held blk one del obj init req nsched off fresh ne
    by (simp add: apply_op_def release_shared_def deleteDelayed_def deleteDelayedInternal_def
        new_block_def setThisPtr_def destroy_def Let_def lock_def get_ptr_def
        queueDestroyGpuCommand_def queueCommand_def copy_shared_def release_default_def
        count_of_def)
qed


text \<open>
  C2. In every world that client code and the core thread can reach, in either build:
  the count of every control block is the number of shared pointers held by clients
  plus the number of queued commands that hold one, so each queued command owns one
  reference from the moment it is queued until it has been played back; the object
  every queued command is bound to is in the heap, managed by the control block the
  command holds; playing back the next command never touches a freed object. In
  particular, when a thread other than the core thread releases the last shared
  pointer to an initialized resource that initializes on the core thread, the resource
  stays in the heap, still initialized, and a destroy command that owns a new shared
  pointer to it is at the end of the queue.
\<close>

theorem queued_command_owns_resource:
  assumes "run d ops (empty_world core_id) = Inr w"
  shows "(\<forall>c. count_of w c = clientRefs w c + queue_count w c)
       \<and> (\<forall>cmd \<in> set (commandQueue w).
            \<exists>c cb obj. command_ptr cmd = Some c \<and> blocks w c = Some cb \<and> 0 < use_count cb
                 \<and> command_target cmd = Some (managed cb) \<and> heap w (managed cb) = Some obj)
       \<and> run_next d w \<noteq> Inl UndefinedBehaviour
       \<and> (\<forall>t c cb obj.
            clientRefs w c = 1 \<and> blocks w c = Some cb \<and> use_count cb = 1
              \<and> deleter cb = DeleteDelayed \<and> heap w (managed cb) = Some obj
              \<and> isInitialized obj \<and> requiresInitOnCoreThread obj
              \<and> \<not> isScheduledToBeInitialized obj \<and> t \<noteq> coreThreadId w \<longrightarrow>
            (\<exists>w' obj'. apply_op d (Release t c) w = Inr w' \<and> heap w' (managed cb) = Some obj'
                 \<and> isInitialized obj' \<and> isScheduledToBeDeleted obj'
                 \<and> commandQueue w' = commandQueue w @
                      [ExecuteGpuCommand (Some (nextBlock w))
                         (Bind_destroy_internal (Some (managed cb)))]
                 \<and> count_of w' (nextBlock w) = 1))"
proof -
  have inv: "consistent None w"
    using assms by (rule reachable_consistent)
  have counts: "\<forall>c. count_of w c = clientRefs w c + queue_count w c"
    using inv by (simp add: consistent_def counts_ok_def)
  have live: "\<forall>cmd \<in> set (commandQueue w).
            \<exists>c cb obj. command_ptr cmd = Some c \<and> blocks w c = Some cb \<and> 0 < use_count cb
                 \<and> command_target cmd = Some (managed cb) \<and> heap w (managed cb) = Some obj"
    using queued_targets_live [OF inv] by blast
  have safe: "run_next d w \<noteq> Inl UndefinedBehaviour"
    using inv by (rule run_next_consistent(1))
  have last: "\<forall>t c cb obj.
            clientRefs w c = 1 \<and> blocks w c = Some cb \<and> use_count cb = 1
              \<and> deleter cb = DeleteDelayed \<and> heap w (managed cb) = Some obj
              \<and> isInitialized obj \<and> requiresInitOnCoreThread obj
              \<and> \<not> isScheduledToBeInitialized obj \<and> t \<noteq> coreThreadId w \<longrightarrow>
            (\<exists>w' obj'. apply_op d (Release t c) w = Inr w' \<and> heap w' (managed cb) = Some obj'
                 \<and> isInitialized obj' \<and> isScheduledToBeDeleted obj'
                 \<and> commandQueue w' = commandQueue w @
                      [ExecuteGpuCommand (Some (nextBlock w))
                         (Bind_destroy_internal (Some (managed cb)))]
                 \<and> count_of w' (nextBlock w) = 1)"
    using release_last_reference [OF inv] by blast
  show ?thesis
    by (rule conjI [OF counts conjI [OF live conjI [OF safe last]]])
qed

theorem queued_command_owns_resource_witness:
  "\<exists>w' obj'. apply_op True (Release 1 0)
                (projr (run True [Create True 0, Initialize 9 0] (empty_world 9))) = Inr w'
       \<and> heap w' 0 = Some obj' \<and> isInitialized obj' \<and> isScheduledToBeDeleted obj'
       \<and> commandQueue w' = [ExecuteGpuCommand (Some 1) (Bind_destroy_internal (Some 0))]
       \<and> count_of w' 1 = 1"
proof -
  let ?w = "projr (run True [Create True 0, Initialize 9 0] (empty_world 9))"
  let ?cb = "\<lparr>managed = 0, use_count = 1, deleter = DeleteDelayed\<rparr>"
  let ?obj = "\<lparr>mFlags = {CGO_INITIALIZED, CGO_INIT_ON_CORE_THREAD}, mInternalID = 0, mThis = Some 0\<rparr>"
  have h1: "run True [Create True 0, Initialize 9 0] (empty_world 9) = Inr ?w"
    by (simp add: eval_defs)
  have h2: "clientRefs ?w 0 = 1 \<and> blocks ?w 0 = Some ?cb \<and> use_count ?cb = 1
              \<and> deleter ?cb = DeleteDelayed \<and> heap ?w (managed ?cb) = Some ?obj
              \<and> isInitialized ?obj \<and> requiresInitOnCoreThread ?obj
              \<and> \<not> isScheduledToBeInitialized ?obj \<and> 1 \<noteq> coreThreadId ?w"
    by (simp add: eval_defs insert_Diff_if insert_commute)
  have h3: "commandQueue ?w = [] \<and> nextBlock ?w = 1"
    by (simp add: eval_defs)
  have "\<exists>w' obj'. apply_op True (Release 1 0) ?w = Inr w' \<and> heap w' (managed ?cb) = Some obj'
                 \<and> isInitialized obj' \<and> isScheduledToBeDeleted obj'
                 \<and> commandQueue w' = commandQueue ?w @
                      [ExecuteGpuCommand (Some (nextBlock ?w))
                         (Bind_destroy_internal (Some (managed ?cb)))]
                 \<and> count_of w' (nextBlock ?w) = 1"
    using queued_command_owns_resource [OF h1] h2 by blast
  then show ?thesis
    using h3 by simp
qed

section \<open>Deferred initialization\<close>












end
